theory Spec2Isabelle
  imports Main
begin

section \<open>Python strings and the string primitives the code uses\<close>

text \<open>
  A Python \<open>str\<close> is represented by its UTF-8 encoding, a list of 8-bit characters.
  Every delimiter the code looks for (\<open>upi://\<close>, \<open>?\<close>, \<open>#\<close>, \<open>&\<close>, \<open>=\<close>, \<open>%\<close>, \<open>+\<close>)
  is ASCII, and no byte of a multi-byte UTF-8 sequence is ASCII, so searching, splitting
  and prefix tests on the bytes agree with the same operations on code points.
  \<open>valid_utf8\<close> says that a byte list is the encoding of some \<open>str\<close>
  (the well-formed byte sequences of the Unicode standard, Table 3-7). A \<open>str\<close> that
  holds a lone surrogate has no UTF-8 encoding and is not represented: the QR decoder
  cannot produce one (it decodes UTF-8 strictly), and \<open>quote\<close> raises
  \<open>UnicodeEncodeError\<close> on it.
\<close>

type_synonym pystr = string

definition ord :: "char \<Rightarrow> nat" where
  "ord c = of_char c"

definition isascii :: "char \<Rightarrow> bool" where
  "isascii c = (ord c < 128)"

definition is_continuation_byte :: "char \<Rightarrow> bool" where
  "is_continuation_byte c = (128 \<le> ord c \<and> ord c < 192)"

fun valid_utf8 :: "pystr \<Rightarrow> bool" where
  "valid_utf8 [] = True"
| "valid_utf8 (c # cs) =
     (if ord c < 128 then valid_utf8 cs
      else if 194 \<le> ord c \<and> ord c < 224 then
        (case cs of
           c2 # r \<Rightarrow> is_continuation_byte c2 \<and> valid_utf8 r
         | _ \<Rightarrow> False)
      else if 224 \<le> ord c \<and> ord c < 240 then
        (case cs of
           c2 # c3 # r \<Rightarrow>
             is_continuation_byte c2 \<and> (ord c = 224 \<longrightarrow> 160 \<le> ord c2) \<and>
             (ord c = 237 \<longrightarrow> ord c2 < 160) \<and> is_continuation_byte c3 \<and> valid_utf8 r
         | _ \<Rightarrow> False)
      else if 240 \<le> ord c \<and> ord c < 245 then
        (case cs of
           c2 # c3 # c4 # r \<Rightarrow>
             is_continuation_byte c2 \<and> (ord c = 240 \<longrightarrow> 144 \<le> ord c2) \<and>
             (ord c = 244 \<longrightarrow> ord c2 < 144) \<and> is_continuation_byte c3 \<and>
             is_continuation_byte c4 \<and> valid_utf8 r
         | _ \<Rightarrow> False)
      else False)"

text \<open>\<open>s.startswith(p)\<close>.\<close>

definition startswith :: "pystr \<Rightarrow> pystr \<Rightarrow> bool" where
  "startswith s p = (take (length p) s = p)"

text \<open>\<open>s.split(c)\<close> for a one-character separator: never empty, \<open>''.split(c) == ['']\<close>.\<close>

fun split_char :: "char \<Rightarrow> pystr \<Rightarrow> pystr list" where
  "split_char sep [] = [[]]"
| "split_char sep (x # xs) =
     (if x = sep then [] # split_char sep xs
      else (case split_char sep xs of
              w # ws \<Rightarrow> (x # w) # ws
            | [] \<Rightarrow> [[x]]))"

text \<open>\<open>sep.join(parts)\<close>.\<close>

fun join :: "pystr \<Rightarrow> pystr list \<Rightarrow> pystr" where
  "join sep [] = []"
| "join sep [p] = p"
| "join sep (p # q # ps) = p @ sep @ join sep (q # ps)"

text \<open>\<open>s.partition(c)\<close>: the text before the first \<open>c\<close>, whether \<open>c\<close> occurs, the text after it.\<close>

definition partition_char :: "char \<Rightarrow> pystr \<Rightarrow> pystr \<times> bool \<times> pystr" where
  "partition_char sep s =
     (takeWhile (\<lambda>c. c \<noteq> sep) s, sep \<in> set s, drop 1 (dropWhile (\<lambda>c. c \<noteq> sep) s))"

text \<open>\<open>s.replace(a, b)\<close> for one-character \<open>a\<close> and \<open>b\<close>, and \<open>s.replace(a, '')\<close>.\<close>

definition replace_char :: "char \<Rightarrow> char \<Rightarrow> pystr \<Rightarrow> pystr" where
  "replace_char a b s = map (\<lambda>c. if c = a then b else c) s"

definition remove_char :: "char \<Rightarrow> pystr \<Rightarrow> pystr" where
  "remove_char a s = filter (\<lambda>c. c \<noteq> a) s"

section \<open>urllib.parse: percent-encoding\<close>

text \<open>
  \<open>bytes.decode('utf-8', 'replace')\<close> on the byte representation: a well-formed sequence
  is copied, an ill-formed one is replaced by U+FFFD (bytes EF BF BD). CPython replaces
  one invalid start byte, or the maximal prefix of a sequence up to its first invalid
  continuation byte, or the whole truncated tail at the end of the data.
\<close>

definition replacement_character :: pystr where
  "replacement_character = [CHR 0xEF, CHR 0xBF, CHR 0xBD]"

fun decode_utf8_replace :: "string \<Rightarrow> pystr" where
  "decode_utf8_replace [] = []"
| "decode_utf8_replace (c # cs) =
     (if ord c < 128 then c # decode_utf8_replace cs
      else if ord c < 194 then replacement_character @ decode_utf8_replace cs
      else if ord c < 224 then
        (case cs of
           [] \<Rightarrow> replacement_character
         | c2 # r \<Rightarrow>
             if \<not> is_continuation_byte c2 then replacement_character @ decode_utf8_replace cs
             else c # c2 # decode_utf8_replace r)
      else if ord c < 240 then
        (case cs of
           [] \<Rightarrow> replacement_character
         | c2 # r2 \<Rightarrow>
             if \<not> is_continuation_byte c2 \<or> (if ord c2 < 160 then ord c = 224 else ord c = 237)
             then replacement_character @ decode_utf8_replace cs
             else (case r2 of
                     [] \<Rightarrow> replacement_character
                   | c3 # r \<Rightarrow>
                       if \<not> is_continuation_byte c3
                       then replacement_character @ decode_utf8_replace r2
                       else c # c2 # c3 # decode_utf8_replace r))
      else if ord c < 245 then
        (case cs of
           [] \<Rightarrow> replacement_character
         | c2 # r2 \<Rightarrow>
             if \<not> is_continuation_byte c2 \<or> (if ord c2 < 144 then ord c = 240 else ord c = 244)
             then replacement_character @ decode_utf8_replace cs
             else (case r2 of
                     [] \<Rightarrow> replacement_character
                   | c3 # r3 \<Rightarrow>
                       if \<not> is_continuation_byte c3
                       then replacement_character @ decode_utf8_replace r2
                       else (case r3 of
                               [] \<Rightarrow> replacement_character
                             | c4 # r \<Rightarrow>
                                 if \<not> is_continuation_byte c4
                                 then replacement_character @ decode_utf8_replace r3
                                 else c # c2 # c3 # c4 # decode_utf8_replace r)))
      else replacement_character @ decode_utf8_replace cs)"

text \<open>
  \<open>quote(string)\<close> with the default \<open>safe='/'\<close>: the string is encoded to UTF-8 (the
  representation itself) and every byte outside \<open>_ALWAYS_SAFE\<close> and \<open>safe\<close> becomes
  \<open>'%{:02X}'.format(byte)\<close>.
\<close>

definition always_safe :: "char \<Rightarrow> bool" where
  "always_safe c =
     (c \<in> set (''ABCDEFGHIJKLMNOPQRSTUVWXYZ'' @ ''abcdefghijklmnopqrstuvwxyz'' @
                ''0123456789'' @ ''_.-~''))"

definition hexdigit_upper :: "nat \<Rightarrow> char" where
  "hexdigit_upper n = ''0123456789ABCDEF'' ! n"

definition quoter :: "pystr \<Rightarrow> char \<Rightarrow> pystr" where
  "quoter safe c =
     (if always_safe c \<or> c \<in> set safe then [c]
      else [CHR ''%'', hexdigit_upper (ord c div 16), hexdigit_upper (ord c mod 16)])"

definition quote_from_bytes :: "string \<Rightarrow> pystr \<Rightarrow> pystr" where
  "quote_from_bytes bs safe =
     (if bs = [] then []
      else if \<forall>c \<in> set bs. always_safe c \<or> c \<in> set safe then bs
      else concat (map (quoter safe) bs))"

definition quote :: "pystr \<Rightarrow> pystr" where
  "quote string = (if string = [] then string else quote_from_bytes string ''/'')"

text \<open>
  \<open>unquote_to_bytes\<close>: split on \<open>%\<close>; an item that starts with two hex digits (either
  case) contributes the byte they denote and the rest of the item, any other item is
  kept behind a literal \<open>%\<close> (the \<open>KeyError\<close> branch). Nothing is raised.
\<close>

definition hexdig :: pystr where
  "hexdig = ''0123456789ABCDEFabcdef''"

definition hexval :: "char \<Rightarrow> nat" where
  "hexval c =
     (if ord c < 58 then ord c - 48
      else if ord c < 71 then ord c - 55
      else ord c - 87)"

definition hextobyte :: "pystr \<Rightarrow> char option" where
  "hextobyte key =
     (case key of
        [a, b] \<Rightarrow>
          if a \<in> set hexdig \<and> b \<in> set hexdig
          then Some (char_of (16 * hexval a + hexval b)) else None
      | _ \<Rightarrow> None)"

definition unquote_item :: "pystr \<Rightarrow> string" where
  "unquote_item item =
     (case hextobyte (take 2 item) of
        Some b \<Rightarrow> b # drop 2 item
      | None \<Rightarrow> CHR ''%'' # item)"

definition unquote_to_bytes :: "pystr \<Rightarrow> string" where
  "unquote_to_bytes string =
     (if string = [] then []
      else (let bits = split_char CHR ''%'' string in
            if length bits = 1 then string
            else hd bits @ concat (map unquote_item (tl bits))))"

text \<open>
  \<open>unquote(string)\<close> with \<open>encoding='utf-8', errors='replace'\<close>: a string without
  \<open>%\<close> is returned as it is; otherwise each maximal run of ASCII characters is
  percent-decoded and the bytes decoded as UTF-8, and the non-ASCII characters between
  the runs are copied. \<open>run\<close> is the ASCII run read so far.
\<close>

fun unquote_parts :: "pystr \<Rightarrow> pystr \<Rightarrow> pystr" where
  "unquote_parts run [] = decode_utf8_replace (unquote_to_bytes run)"
| "unquote_parts run (c # cs) =
     (if isascii c then unquote_parts (run @ [c]) cs
      else decode_utf8_replace (unquote_to_bytes run) @ c # unquote_parts [] cs)"

definition unquote :: "pystr \<Rightarrow> pystr" where
  "unquote string =
     (if CHR ''%'' \<notin> set string then string else unquote_parts [] string)"

definition unquote_plus :: "pystr \<Rightarrow> pystr" where
  "unquote_plus string = unquote (replace_char CHR ''+'' CHR '' '' string)"

section \<open>urllib.parse: splitting a URL and its query\<close>

text \<open>
  Exceptions are values; \<open>exception_message\<close> is \<open>str(e)\<close>.
\<close>

datatype py_exception = ValueError pystr | IndexError pystr

fun exception_message :: "py_exception \<Rightarrow> pystr" where
  "exception_message (ValueError m) = m"
| "exception_message (IndexError m) = m"

text \<open>
  Two checks of \<open>urlsplit\<close> on the network location depend on library tables that
  are not unfolded here and are taken as parameters:
  \<^item> \<open>check_bracketed_host h\<close>: what \<open>_check_bracketed_host\<close> does on the text between
    \<open>[\<close> and \<open>]\<close> (the \<open>ipaddress\<close> module and the IPvFuture pattern): \<open>None\<close> when it
    returns, \<open>Some m\<close> when it raises \<open>ValueError(m)\<close>;
  \<^item> \<open>nfkc_invalid n\<close>: whether \<open>_checknetloc\<close> raises on a non-ASCII network location
    (its NFKC normal form differs and holds one of \<open>/?#@:\<close>).
  Everything else of \<open>urlsplit\<close> is modelled; a location that is ASCII and has no bracket
  never reaches either parameter.
\<close>

record urllib_env =
  check_bracketed_host :: "pystr \<Rightarrow> pystr option"
  nfkc_invalid :: "pystr \<Rightarrow> bool"

record split_result =
  scheme :: pystr
  netloc :: pystr
  path :: pystr
  query :: pystr
  fragment :: pystr

definition whatwg_c0_control_or_space :: "char \<Rightarrow> bool" where
  "whatwg_c0_control_or_space c = (ord c \<le> 32)"

definition unsafe_url_bytes_to_remove :: "char list" where
  "unsafe_url_bytes_to_remove = [CHR 0x09, CHR 0x0D, CHR 0x0A]"

definition scheme_chars :: pystr where
  "scheme_chars = ''abcdefghijklmnopqrstuvwxyz'' @ ''ABCDEFGHIJKLMNOPQRSTUVWXYZ'' @
                  ''0123456789'' @ ''+-.''"

definition ascii_isalpha :: "char \<Rightarrow> bool" where
  "ascii_isalpha c = ((65 \<le> ord c \<and> ord c \<le> 90) \<or> (97 \<le> ord c \<and> ord c \<le> 122))"

definition ascii_lower :: "char \<Rightarrow> char" where
  "ascii_lower c = (if 65 \<le> ord c \<and> ord c \<le> 90 then char_of (ord c + 32) else c)"

text \<open>\<open>_splitnetloc(url, 2)\<close>: the location runs to the first of \<open>/ ? #\<close>.\<close>

definition netloc_delim :: "char \<Rightarrow> bool" where
  "netloc_delim c = (c \<in> set ''/?#'')"

definition splitnetloc :: "pystr \<Rightarrow> nat \<Rightarrow> pystr \<times> pystr" where
  "splitnetloc url start =
     (takeWhile (\<lambda>c. \<not> netloc_delim c) (drop start url),
      dropWhile (\<lambda>c. \<not> netloc_delim c) (drop start url))"

definition checknetloc :: "urllib_env \<Rightarrow> pystr \<Rightarrow> py_exception option" where
  "checknetloc env nl =
     (if nl = [] \<or> (\<forall>c \<in> set nl. isascii c) then None
      else if nfkc_invalid env nl
      then Some (ValueError (''netloc '' @ [CHR 0x27] @ nl @ [CHR 0x27] @
                   '' contains invalid characters under NFKC normalization''))
      else None)"

text \<open>
  The tail of \<open>urlsplit\<close>, after scheme and location: \<open>url.split('#', 1)\<close>, then
  \<open>url.split('?', 1)\<close>, then \<open>_checknetloc\<close>.
\<close>

definition split_fragment_query ::
  "urllib_env \<Rightarrow> pystr \<Rightarrow> pystr \<Rightarrow> pystr \<Rightarrow> py_exception + split_result" where
  "split_fragment_query env sch nl url =
     (let (url1, frag) =
            (if CHR ''#'' \<in> set url
             then (case partition_char CHR ''#'' url of (a, _, b) \<Rightarrow> (a, b))
             else (url, []));
          (url2, q) =
            (if CHR ''?'' \<in> set url1
             then (case partition_char CHR ''?'' url1 of (a, _, b) \<Rightarrow> (a, b))
             else (url1, []))
      in case checknetloc env nl of
           Some e \<Rightarrow> Inl e
         | None \<Rightarrow>
             Inr \<lparr>scheme = sch, netloc = nl, path = url2, query = q, fragment = frag\<rparr>)"

text \<open>\<open>urlsplit(url)\<close> with \<open>scheme=''\<close> and \<open>allow_fragments=True\<close>.\<close>

definition urlsplit :: "urllib_env \<Rightarrow> pystr \<Rightarrow> py_exception + split_result" where
  "urlsplit env url0 =
     (let url1 = dropWhile whatwg_c0_control_or_space url0;
          url2 = foldl (\<lambda>url b. remove_char b url) url1 unsafe_url_bytes_to_remove;
          pre = takeWhile (\<lambda>c. c \<noteq> CHR '':'') url2;
          has_scheme = (CHR '':'' \<in> set url2 \<and> pre \<noteq> [] \<and> isascii (hd url2) \<and>
                        ascii_isalpha (hd url2) \<and> (\<forall>c \<in> set pre. c \<in> set scheme_chars));
          sch = (if has_scheme then map ascii_lower pre else []);
          url3 = (if has_scheme then drop (length pre + 1) url2 else url2)
      in if take 2 url3 = ''//'' then
           (case splitnetloc url3 2 of
              (nl, rest) \<Rightarrow>
                if (CHR ''['' \<in> set nl \<and> CHR '']'' \<notin> set nl) \<or>
                   (CHR '']'' \<in> set nl \<and> CHR ''['' \<notin> set nl)
                then Inl (ValueError ''Invalid IPv6 URL'')
                else if CHR ''['' \<in> set nl \<and> CHR '']'' \<in> set nl then
                  (case check_bracketed_host env
                          (fst (partition_char CHR '']''
                             (snd (snd (partition_char CHR ''['' nl))))) of
                     Some m \<Rightarrow> Inl (ValueError m)
                   | None \<Rightarrow> split_fragment_query env sch nl rest)
                else split_fragment_query env sch nl rest)
         else split_fragment_query env sch [] url3)"

text \<open>
  \<open>urlparse(url)\<close> is \<open>urlsplit(url)\<close> followed by a split of the path at \<open>;\<close> for the
  schemes of \<open>uses_params\<close>; it raises exactly when \<open>urlsplit\<close> does and leaves the query
  as it is. The code reads only \<open>parsed.query\<close>, so the path split is not modelled.
\<close>

definition urlparse :: "urllib_env \<Rightarrow> pystr \<Rightarrow> py_exception + split_result" where
  "urlparse env url = urlsplit env url"

text \<open>
  \<open>parse_qsl(qs)\<close> with its defaults (\<open>keep_blank_values=False\<close>,
  \<open>strict_parsing=False\<close>, separator \<open>&\<close>): an empty field is skipped, and so is a field
  whose text after the first \<open>=\<close> is empty, which includes a field without \<open>=\<close>.
\<close>

fun parse_qsl_fields :: "pystr list \<Rightarrow> (pystr \<times> pystr) list" where
  "parse_qsl_fields [] = []"
| "parse_qsl_fields (name_value # rest) =
     (if name_value \<noteq> [] then
        (case partition_char CHR ''='' name_value of
           (name, has_eq, value) \<Rightarrow>
             if value \<noteq> [] then (unquote_plus name, unquote_plus value) # parse_qsl_fields rest
             else parse_qsl_fields rest)
      else parse_qsl_fields rest)"

definition parse_qsl :: "pystr \<Rightarrow> (pystr \<times> pystr) list" where
  "parse_qsl qs = (if qs = [] then [] else parse_qsl_fields (split_char CHR ''&'' qs))"

section \<open>Dictionaries\<close>

text \<open>
  A Python dictionary keeps insertion order and unique keys: an association list,
  \<open>d[k] = v\<close> replacing the value in place when \<open>k\<close> is present and appending otherwise.
  Lookup is \<open>map_of\<close>; \<open>d.update(m)\<close> assigns the items of \<open>m\<close> in order.
\<close>

type_synonym ('k, 'v) dict = "('k \<times> 'v) list"

fun dict_set :: "('k, 'v) dict \<Rightarrow> 'k \<Rightarrow> 'v \<Rightarrow> ('k, 'v) dict" where
  "dict_set [] k v = [(k, v)]"
| "dict_set ((k', v') # d) k v =
     (if k' = k then (k, v) # d else (k', v') # dict_set d k v)"

fun dict_update :: "('k, 'v) dict \<Rightarrow> ('k, 'v) dict \<Rightarrow> ('k, 'v) dict" where
  "dict_update d [] = d"
| "dict_update d ((k, v) # m) = dict_update (dict_set d k v) m"

definition dict_get :: "('k, 'k) dict \<Rightarrow> 'k \<Rightarrow> 'k" where
  "dict_get d key = (case map_of d key of Some v \<Rightarrow> v | None \<Rightarrow> key)"

text \<open>\<open>parse_qs(qs)\<close>: the values of each name, in order, under the name's first position.\<close>

fun parse_qs_pairs ::
  "(pystr, pystr list) dict \<Rightarrow> (pystr \<times> pystr) list \<Rightarrow> (pystr, pystr list) dict" where
  "parse_qs_pairs parsed_result [] = parsed_result"
| "parse_qs_pairs parsed_result ((name, value) # pairs) =
     (case map_of parsed_result name of
        Some vs \<Rightarrow> parse_qs_pairs (dict_set parsed_result name (vs @ [value])) pairs
      | None \<Rightarrow> parse_qs_pairs (dict_set parsed_result name [value]) pairs)"

definition parse_qs :: "pystr \<Rightarrow> (pystr, pystr list) dict" where
  "parse_qs qs = parse_qs_pairs [] (parse_qsl qs)"

section \<open>qr\_handler.py: class UPIQRHandler\<close>

text \<open>
  The object has one attribute, \<open>self.upi_data\<close>, set to \<open>{}\<close> by \<open>__init__\<close>. Values of
  a parameter dictionary are strings, as the annotations \<open>Dict[str, str]\<close> say, so
  \<open>str(value)\<close> is \<open>value\<close>.
\<close>

record handler =
  upi_data :: "(pystr, pystr) dict"

definition init :: handler where
  "init = \<lparr>upi_data = []\<rparr>"

text \<open>The table of \<open>parse_upi_string\<close>, from the short key to the field name.\<close>

definition param_mapping :: "(pystr, pystr) dict" where
  "param_mapping =
     [(''pa'', ''payee_address''),
      (''pn'', ''payee_name''),
      (''am'', ''amount''),
      (''cu'', ''currency''),
      (''tn'', ''transaction_note''),
      (''tr'', ''transaction_ref''),
      (''mc'', ''merchant_code''),
      (''tid'', ''transaction_id''),
      (''url'', ''url'')]"

text \<open>The table of \<open>create_upi_string\<close> (\<open># Reverse mapping\<close>), from the field name to the short key.\<close>

definition reverse_mapping :: "(pystr, pystr) dict" where
  "reverse_mapping =
     [(''payee_address'', ''pa''),
      (''payee_name'', ''pn''),
      (''amount'', ''am''),
      (''currency'', ''cu''),
      (''transaction_note'', ''tn''),
      (''transaction_ref'', ''tr''),
      (''merchant_code'', ''mc''),
      (''transaction_id'', ''tid''),
      (''url'', ''url'')]"

text \<open>
  The loop \<open>for key, value in query_params.items()\<close>. \<open>value[0]\<close> raises
  \<open>IndexError\<close> on an empty list; the dictionary filled so far is what the handler
  of \<open>parse_upi_string\<close> then returns.
\<close>

fun extract_params ::
  "(pystr, pystr) dict \<Rightarrow> (pystr, pystr list) dict \<Rightarrow> (pystr, pystr) dict \<times> py_exception option" where
  "extract_params upi_params [] = (upi_params, None)"
| "extract_params upi_params ((key, value) # items) =
     (case value of
        [] \<Rightarrow> (upi_params, Some (IndexError ''list index out of range''))
      | v # _ \<Rightarrow> extract_params (dict_set upi_params (dict_get param_mapping key) v) items)"

text \<open>
  \<open>parse_upi_string\<close> returns a dictionary on every path; what it does besides is kept
  next to the returned value: the object after the call and the lines it printed.
\<close>

record parse_run =
  returned :: "(pystr, pystr) dict"
  self_after :: handler
  printed :: "pystr list"

definition parse_upi_string :: "urllib_env \<Rightarrow> handler \<Rightarrow> pystr \<Rightarrow> parse_run" where
  "parse_upi_string env self upi_string =
     (if \<not> startswith upi_string ''upi://''
      then \<lparr>returned = [], self_after = self, printed = [''Not a UPI payment string'']\<rparr>
      else
        (case urlparse env upi_string of
           Inl e \<Rightarrow>
             \<lparr>returned = [], self_after = self,
              printed = [''Error parsing UPI string: '' @ exception_message e]\<rparr>
         | Inr parsed \<Rightarrow>
             (case extract_params [] (parse_qs (query parsed)) of
                (upi_params, Some e) \<Rightarrow>
                  \<lparr>returned = upi_params, self_after = self,
                   printed = [''Error parsing UPI string: '' @ exception_message e]\<rparr>
              | (upi_params, None) \<Rightarrow>
                  \<lparr>returned = upi_params, self_after = self\<lparr>upi_data := upi_params\<rparr>,
                   printed =
                     [[CHR 0x0A] @ ''=== UPI Payment Details ===''] @
                     map (\<lambda>(key, value). key @ '': '' @ value) upi_params @
                     [''=========================='' @ [CHR 0x0A]]\<rparr>)))"

definition create_upi_string :: "(pystr, pystr) dict \<Rightarrow> pystr" where
  "create_upi_string upi_params =
     ''upi://pay?'' @
     join ''&'' (map (\<lambda>(key, value). dict_get reverse_mapping key @ ''='' @ quote value) upi_params)"

text \<open>
  The optical collaborators are parameters. \<open>decode_qr image_path\<close> is the text of the
  first symbol found in the image, or \<open>None\<close>. \<open>qr_error data output_path\<close> is \<open>None\<close>
  when the QR library builds and saves the image, and the message of the exception it
  raises otherwise. A saved image is recorded as its path with the text it encodes.
\<close>

type_synonym image_store = "(pystr \<times> pystr) list"

definition encode_qr :: "(pystr \<Rightarrow> pystr \<Rightarrow> pystr option) \<Rightarrow> pystr \<Rightarrow> pystr \<Rightarrow> bool \<times> image_store" where
  "encode_qr qr_error data output_path =
     (case qr_error data output_path of
        None \<Rightarrow> (True, [(output_path, data)])
      | Some e \<Rightarrow> (False, []))"

text \<open>
  \<open>decode_and_encode\<close>: the result is the returned flag and the images saved. The
  console output and the object after the call are left out at this level.
\<close>

definition decode_and_encode ::
  "urllib_env \<Rightarrow> (pystr \<Rightarrow> pystr option) \<Rightarrow> (pystr \<Rightarrow> pystr \<Rightarrow> pystr option) \<Rightarrow> handler \<Rightarrow>
   pystr \<Rightarrow> pystr \<Rightarrow> (pystr, pystr) dict option \<Rightarrow> bool \<times> image_store" where
  "decode_and_encode env decode_qr qr_error self input_image output_image modify_params =
     (case decode_qr input_image of
        None \<Rightarrow> (False, [])
      | Some decoded_data \<Rightarrow>
          if decoded_data = [] then (False, [])
          else
            (let new_data =
                   (if startswith decoded_data ''upi://'' then
                      (let upi_params = returned (parse_upi_string env self decoded_data);
                           upi_params' =
                             (case modify_params of
                                None \<Rightarrow> upi_params
                              | Some m \<Rightarrow> if m \<noteq> [] then dict_update upi_params m else upi_params)
                       in create_upi_string upi_params')
                    else decoded_data)
             in encode_qr qr_error new_data output_image))"

section \<open>app.py: the web application's codec and its modify route\<close>

text \<open>
  \<open>parse_upi_string\<close> of app.py returns a pair \<open>(upi_params, error)\<close>, one of them
  \<open>None\<close>.
\<close>

definition app_parse_upi_string ::
  "urllib_env \<Rightarrow> pystr \<Rightarrow> (pystr, pystr) dict option \<times> pystr option" where
  "app_parse_upi_string env upi_string =
     (if \<not> startswith upi_string ''upi://'' then (None, Some ''Not a UPI payment string'')
      else
        (case urlparse env upi_string of
           Inl e \<Rightarrow> (None, Some (exception_message e))
         | Inr parsed \<Rightarrow>
             (case extract_params [] (parse_qs (query parsed)) of
                (upi_params, Some e) \<Rightarrow> (None, Some (exception_message e))
              | (upi_params, None) \<Rightarrow> (Some upi_params, None))))"

text \<open>\<open>create_upi_string\<close> of app.py: \<open>if value:  # Only include non-empty values\<close>.\<close>

definition app_create_upi_string :: "(pystr, pystr) dict \<Rightarrow> pystr" where
  "app_create_upi_string upi_params =
     ''upi://pay?'' @
     join ''&'' (map (\<lambda>(key, value). dict_get reverse_mapping key @ ''='' @ quote value)
                  (filter (\<lambda>(key, value). value \<noteq> []) upi_params))"

text \<open>The loop \<open># Apply modifications\<close> of \<open>modify\<close>.\<close>

fun apply_modifications :: "(pystr, pystr) dict \<Rightarrow> (pystr, pystr) dict \<Rightarrow> (pystr, pystr) dict" where
  "apply_modifications upi_params [] = upi_params"
| "apply_modifications upi_params ((key, value) # modifications) =
     (if key \<noteq> ''file'' \<and> value \<noteq> []
      then apply_modifications (dict_set upi_params key value) modifications
      else apply_modifications upi_params modifications)"

text \<open>
  The route \<open>/modify\<close>, from the upload checks on. \<open>decode_qr_code\<close> and
  \<open>generate_qr_code\<close> wrap the optical libraries and are parameters returning the pairs
  the code returns (\<open>(qr_data, error)\<close> and \<open>(filepath, error)\<close>); \<open>if error:\<close> holds for
  a non-empty message. A response is the JSON body that matters here (the error with
  its status, or the record and the new URI text); an image is saved when
  \<open>generate_qr_code\<close> returns its path. Using \<open>None\<close> as the decoded text or as the
  record raises an exception no handler of the route catches.
\<close>

datatype response =
    Json_error pystr nat
  | Json_modified "(pystr, pystr) dict" pystr
  | Unhandled_error

definition truthy :: "pystr option \<Rightarrow> bool" where
  "truthy x = (case x of None \<Rightarrow> False | Some m \<Rightarrow> m \<noteq> [])"

definition message :: "pystr option \<Rightarrow> pystr" where
  "message x = (case x of None \<Rightarrow> [] | Some m \<Rightarrow> m)"

definition modify ::
  "urllib_env \<Rightarrow> (pystr \<Rightarrow> pystr option \<times> pystr option) \<Rightarrow>
   (pystr \<Rightarrow> pystr \<Rightarrow> pystr option \<times> pystr option) \<Rightarrow>
   bool \<Rightarrow> pystr \<Rightarrow> pystr \<Rightarrow> (pystr, pystr) dict \<Rightarrow> pystr \<Rightarrow> response \<times> image_store" where
  "modify env decode_qr_code generate_qr_code file_in_request file_name filepath modifications
          new_filename =
     (if \<not> file_in_request then (Json_error ''No file uploaded'' 400, [])
      else if file_name = [] then (Json_error ''No file selected'' 400, [])
      else
        (case decode_qr_code filepath of
           (qr_data, error) \<Rightarrow>
             if truthy error then (Json_error (message error) 400, [])
             else
               (case qr_data of
                  None \<Rightarrow> (Unhandled_error, [])
                | Some qr_data \<Rightarrow>
                    if \<not> startswith qr_data ''upi://''
                    then (Json_error ''Not a UPI QR code'' 400, [])
                    else
                      (case app_parse_upi_string env qr_data of
                         (upi_params, parse_error) \<Rightarrow>
                           if truthy parse_error then (Json_error (message parse_error) 400, [])
                           else
                             (case upi_params of
                                None \<Rightarrow> (Unhandled_error, [])
                              | Some upi_params \<Rightarrow>
                                  (let upi_params' = apply_modifications upi_params modifications;
                                       new_upi_string = app_create_upi_string upi_params'
                                   in case generate_qr_code new_upi_string new_filename of
                                        (new_filepath, gen_error) \<Rightarrow>
                                          if truthy gen_error
                                          then (Json_error (message gen_error) 400, [])
                                          else
                                            (Json_modified upi_params' new_upi_string,
                                             (case new_filepath of
                                                None \<Rightarrow> []
                                              | Some fp \<Rightarrow> [(fp, new_upi_string)]))))))))"

text \<open>
  An environment for evaluating concrete inputs; a URL whose location is ASCII without
  brackets, such as \<open>upi://pay?...\<close>, never consults it.
\<close>

definition plain_env :: urllib_env where
  "plain_env = \<lparr>check_bracketed_host = (\<lambda>h. None), nfkc_invalid = (\<lambda>n. False)\<rparr>"

section \<open>Sequences of codec calls on one handler\<close>

text \<open>
  A call of one of the two codec methods on a handler object, and the object after a
  sequence of such calls. \<open>create_upi_string\<close> does not touch the object.
\<close>

datatype codec_call = Parse_call pystr | Create_call "(pystr, pystr) dict"

fun codec_step :: "urllib_env \<Rightarrow> handler \<Rightarrow> codec_call \<Rightarrow> handler" where
  "codec_step env self (Parse_call upi_string) = self_after (parse_upi_string env self upi_string)"
| "codec_step env self (Create_call upi_params) = self"

definition codec_run :: "urllib_env \<Rightarrow> handler \<Rightarrow> codec_call list \<Rightarrow> handler" where
  "codec_run env self calls = foldl (codec_step env) self calls"

section \<open>Auxiliary notions for the proofs\<close>

text \<open>The result of \<open>unquote_to_bytes\<close> written on the split alone.\<close>

definition unquote_bits :: "pystr \<Rightarrow> string" where
  "unquote_bits s =
     hd (split_char CHR ''%'' s) @ concat (map unquote_item (tl (split_char CHR ''%'' s)))"

text \<open>The characters \<open>quote\<close> can emit.\<close>

definition quoted_char :: "char \<Rightarrow> bool" where
  "quoted_char x = (always_safe x \<or> x = CHR ''/'' \<or> x = CHR ''%'')"

text \<open>The values a query's pairs give for one name, in order.\<close>

definition values_of :: "pystr \<Rightarrow> (pystr \<times> pystr) list \<Rightarrow> pystr list" where
  "values_of n pairs = map snd (filter (\<lambda>p. fst p = n) pairs)"

text \<open>The nine field names of the record.\<close>

definition recognized_fields :: "pystr list" where
  "recognized_fields =
     [''payee_address'', ''payee_name'', ''amount'', ''currency'', ''transaction_note'',
      ''transaction_ref'', ''merchant_code'', ''transaction_id'', ''url'']"

text \<open>One \<open>key=value\<close> pair as \<open>create_upi_string\<close> writes it.\<close>

definition upi_field :: "pystr \<times> pystr \<Rightarrow> pystr" where
  "upi_field kv = (case kv of (key, value) \<Rightarrow> dict_get reverse_mapping key @ ''='' @ quote value)"

text \<open>The characters \<open>urlsplit\<close> leaves in place inside a query.\<close>

definition url_plain :: "char \<Rightarrow> bool" where
  "url_plain c = (c \<notin> set ''#'' \<and> c \<notin> set unsafe_url_bytes_to_remove)"

section \<open>Percent-encoding: properties\<close>

lemma split_char_not_Nil [simp]: "split_char sep s \<noteq> []"
  by (induction s) (auto split: list.splits)

lemma split_char_Cons_other:
  "x \<noteq> sep \<Longrightarrow> split_char sep (x # xs) = (x # hd (split_char sep xs)) # tl (split_char sep xs)"
  by (cases "split_char sep xs") auto

lemma split_char_Cons_sep: "split_char sep (sep # xs) = [] # split_char sep xs"
  by simp

lemma split_char_no_sep: "sep \<notin> set s \<Longrightarrow> split_char sep s = [s]"
  by (induction s) auto

lemma split_char_single: "split_char sep s = [w] \<Longrightarrow> w = s \<and> sep \<notin> set s"
  by (induction s arbitrary: w) (auto split: if_splits list.splits)

lemma unquote_to_bytes_bits: "unquote_to_bytes s = unquote_bits s"
proof (cases "length (split_char CHR ''%'' s) = 1")
  case True
  then obtain w where w: "split_char CHR ''%'' s = [w]"
    by (cases "split_char CHR ''%'' s") auto
  from split_char_single [OF w] w show ?thesis
    by (simp add: unquote_to_bytes_def unquote_bits_def Let_def)
next
  case False
  then have "s \<noteq> []" by auto
  with False show ?thesis
    by (simp add: unquote_to_bytes_def unquote_bits_def Let_def)
qed

lemma unquote_bits_Cons_other:
  "x \<noteq> CHR ''%'' \<Longrightarrow> unquote_bits (x # xs) = x # unquote_bits xs"
  by (simp add: unquote_bits_def split_char_Cons_other del: split_char.simps)

lemma unquote_bits_escape:
  "hextobyte [h, l] = Some b \<Longrightarrow> h \<noteq> CHR ''%'' \<Longrightarrow> l \<noteq> CHR ''%'' \<Longrightarrow>
   unquote_bits (CHR ''%'' # h # l # xs) = b # unquote_bits xs"
proof -
  assume hb: "hextobyte [h, l] = Some b" and h: "h \<noteq> CHR ''%''" and l: "l \<noteq> CHR ''%''"
  have "split_char CHR ''%'' (CHR ''%'' # h # l # xs) =
          [] # (h # l # hd (split_char CHR ''%'' xs)) # tl (split_char CHR ''%'' xs)"
    using h l by (simp add: split_char_Cons_other split_char_Cons_sep del: split_char.simps)
  then show ?thesis
    using hb by (simp add: unquote_bits_def unquote_item_def del: split_char.simps)
qed

lemma hexdigit_upper_table:
  "list_all (\<lambda>n. hexdigit_upper n \<in> set hexdig \<and> hexval (hexdigit_upper n) = n \<and>
                  always_safe (hexdigit_upper n)) [0..<16]"
  by code_simp

lemma always_safe_plain:
  "always_safe c \<Longrightarrow> isascii c \<and> c \<noteq> CHR ''%'' \<and> c \<noteq> CHR ''+'' \<and> c \<noteq> CHR ''&'' \<and> c \<noteq> CHR ''=''
     \<and> c \<noteq> CHR '' '' \<and> c \<noteq> CHR ''?'' \<and> c \<noteq> CHR ''#'' \<and> c \<noteq> CHR 0x09 \<and> c \<noteq> CHR 0x0A
     \<and> c \<noteq> CHR 0x0D \<and> c \<noteq> CHR ''['' \<and> c \<noteq> CHR '']'' \<and> c \<noteq> CHR ''/'' \<and> c \<noteq> CHR '':''"
  unfolding always_safe_def isascii_def ord_def by auto

lemma always_safe_hexdigit_upper: "n < 16 \<Longrightarrow> always_safe (hexdigit_upper n)"
  using hexdigit_upper_table by (simp add: list_all_iff)

lemma hexdigit_upper_cases:
  "n < 16 \<Longrightarrow> hexdigit_upper n \<in> set hexdig \<and> hexval (hexdigit_upper n) = n \<and> hexdigit_upper n \<noteq> CHR ''%''
     \<and> hexdigit_upper n \<noteq> CHR ''+'' \<and> isascii (hexdigit_upper n)"
  using hexdigit_upper_table always_safe_plain [of "hexdigit_upper n"] by (simp add: list_all_iff)

lemma ord_less_256: "ord c < 256"
  by (simp add: ord_def)

lemma hextobyte_quoter: "hextobyte [hexdigit_upper (ord c div 16), hexdigit_upper (ord c mod 16)] = Some c"
proof -
  have d: "ord c div 16 < 16" using ord_less_256 [of c] by simp
  have m: "ord c mod 16 < 16" by simp
  have "char_of (16 * (ord c div 16) + ord c mod 16) = c"
    by (simp add: ord_def)
  with hexdigit_upper_cases [OF d] hexdigit_upper_cases [OF m] show ?thesis
    by (simp add: hextobyte_def)
qed



lemma decode_utf8_replace_1: "ord c < 128 \<Longrightarrow> decode_utf8_replace (c # cs) = c # decode_utf8_replace cs"
  by simp

lemma decode_utf8_replace_2:
  "194 \<le> ord c \<Longrightarrow> ord c < 224 \<Longrightarrow> is_continuation_byte c2 \<Longrightarrow>
   decode_utf8_replace (c # c2 # r) = c # c2 # decode_utf8_replace r"
  by simp

lemma decode_utf8_replace_3:
  "224 \<le> ord c \<Longrightarrow> ord c < 240 \<Longrightarrow> is_continuation_byte c2 \<Longrightarrow>
   (ord c = 224 \<longrightarrow> 160 \<le> ord c2) \<Longrightarrow> (ord c = 237 \<longrightarrow> ord c2 < 160) \<Longrightarrow>
   is_continuation_byte c3 \<Longrightarrow>
   decode_utf8_replace (c # c2 # c3 # r) = c # c2 # c3 # decode_utf8_replace r"
  by (subst decode_utf8_replace.simps) (auto simp del: decode_utf8_replace.simps)

lemma decode_utf8_replace_4:
  "240 \<le> ord c \<Longrightarrow> ord c < 245 \<Longrightarrow> is_continuation_byte c2 \<Longrightarrow>
   (ord c = 240 \<longrightarrow> 144 \<le> ord c2) \<Longrightarrow> (ord c = 244 \<longrightarrow> ord c2 < 144) \<Longrightarrow>
   is_continuation_byte c3 \<Longrightarrow> is_continuation_byte c4 \<Longrightarrow>
   decode_utf8_replace (c # c2 # c3 # c4 # r) = c # c2 # c3 # c4 # decode_utf8_replace r"
  by (subst decode_utf8_replace.simps) (auto simp del: decode_utf8_replace.simps)


lemma decode_utf8_replace_valid: "valid_utf8 bs \<Longrightarrow> decode_utf8_replace bs = bs"
proof (induction bs rule: valid_utf8.induct)
  case 1
  then show ?case by simp
next
  case (2 c cs)
  show ?case
  proof (cases "ord c < 128")
    case True
    with 2 show ?thesis by simp
  next
    case n1: False
    show ?thesis
    proof (cases "194 \<le> ord c \<and> ord c < 224")
      case True
      with n1 "2.prems" obtain c2 r where cs: "cs = c2 # r"
        and v: "is_continuation_byte c2" "valid_utf8 r"
        by (cases cs) auto
      from "2.IH"(2) [OF n1 True cs] v True cs show ?thesis
        by (simp add: decode_utf8_replace_2 del: decode_utf8_replace.simps)
    next
      case n2: False
      show ?thesis
      proof (cases "224 \<le> ord c \<and> ord c < 240")
        case True
        with n1 n2 "2.prems" obtain c2 c3 r where cs: "cs = c2 # c3 # r"
          and v: "is_continuation_byte c2" "ord c = 224 \<longrightarrow> 160 \<le> ord c2"
            "ord c = 237 \<longrightarrow> ord c2 < 160" "is_continuation_byte c3" "valid_utf8 r"
          by (cases cs; cases "tl cs") auto
        from "2.IH"(3) [OF n1 n2 True cs refl] v True cs show ?thesis
          by (simp add: decode_utf8_replace_3 del: decode_utf8_replace.simps)
      next
        case n3: False
        show ?thesis
        proof (cases "240 \<le> ord c \<and> ord c < 245")
          case True
          with n1 n2 n3 "2.prems" obtain c2 c3 c4 r where cs: "cs = c2 # c3 # c4 # r"
            and v: "is_continuation_byte c2" "ord c = 240 \<longrightarrow> 144 \<le> ord c2"
              "ord c = 244 \<longrightarrow> ord c2 < 144" "is_continuation_byte c3"
              "is_continuation_byte c4" "valid_utf8 r"
            by (cases cs; cases "tl cs"; cases "tl (tl cs)") auto
          from "2.IH"(4) [OF n1 n2 n3 True cs refl refl] v True cs show ?thesis
            by (simp add: decode_utf8_replace_4 del: decode_utf8_replace.simps)
        next
          case False
          with n1 n2 n3 "2.prems" show ?thesis by (simp only: valid_utf8.simps if_False)
        qed
      qed
    qed
  qed
qed

lemma quoter_quoted_char: "x \<in> set (quoter ''/'' c) \<Longrightarrow> quoted_char x"
proof -
  have d: "ord c div 16 < 16" using ord_less_256 [of c] by simp
  have m: "ord c mod 16 < 16" by simp
  assume "x \<in> set (quoter ''/'' c)"
  with always_safe_hexdigit_upper [OF d] always_safe_hexdigit_upper [OF m] show ?thesis
    by (auto simp: quoter_def quoted_char_def split: if_splits)
qed

lemma quote_quoted_char: "x \<in> set (quote v) \<Longrightarrow> quoted_char x"
  by (auto simp: quote_def quote_from_bytes_def quoted_char_def dest: quoter_quoted_char split: if_splits)

lemma unquote_bits_quoter: "unquote_bits (concat (map (quoter ''/'') bs)) = bs"
proof (induction bs)
  case Nil
  show ?case by (simp add: unquote_bits_def)
next
  case (Cons c bs)
  show ?case
  proof (cases "always_safe c \<or> c \<in> set ''/''")
    case True
    then have "c \<noteq> CHR ''%''" using always_safe_plain [of c] by auto
    with True Cons show ?thesis
      by (simp add: quoter_def unquote_bits_Cons_other)
  next
    case False
    have d: "ord c div 16 < 16" using ord_less_256 [of c] by simp
    have m: "ord c mod 16 < 16" by simp
    from False Cons hexdigit_upper_cases [OF d] hexdigit_upper_cases [OF m] show ?thesis
      by (simp add: quoter_def unquote_bits_escape [OF hextobyte_quoter])
  qed
qed

lemma unquote_to_bytes_quote: "unquote_to_bytes (quote v) = v"
proof (cases "\<forall>c \<in> set v. always_safe c \<or> c \<in> set ''/''")
  case True
  then have "CHR ''%'' \<notin> set v" using always_safe_plain by auto
  then have "unquote_bits v = v" by (simp add: unquote_bits_def split_char_no_sep)
  with True show ?thesis
    by (cases "v = []") (simp_all add: unquote_to_bytes_bits quote_def quote_from_bytes_def)
next
  case False
  then have "v \<noteq> []" by auto
  with False show ?thesis
    by (auto simp add: unquote_to_bytes_bits quote_def quote_from_bytes_def unquote_bits_quoter)
qed

lemma quoted_char_ascii: "quoted_char x \<Longrightarrow> isascii x"
  using always_safe_plain [of x] by (auto simp: quoted_char_def isascii_def ord_def)

lemma unquote_parts_ascii:
  "\<forall>c \<in> set s. isascii c \<Longrightarrow> unquote_parts run s = decode_utf8_replace (unquote_to_bytes (run @ s))"
  by (induction s arbitrary: run) auto

lemma quote_no_percent: "CHR ''%'' \<notin> set (quote v) \<Longrightarrow> quote v = v"
proof (cases "\<forall>c \<in> set v. always_safe c \<or> c \<in> set ''/''")
  case True
  then show ?thesis by (simp add: quote_def quote_from_bytes_def)
next
  case False
  then obtain c where c: "c \<in> set v" "\<not> (always_safe c \<or> c \<in> set ''/'')" by blast
  then have "CHR ''%'' \<in> set (quoter ''/'' c)" by (simp add: quoter_def)
  with c False have "CHR ''%'' \<in> set (quote v)"
    by (auto simp: quote_def quote_from_bytes_def)
  moreover assume "CHR ''%'' \<notin> set (quote v)"
  ultimately show ?thesis by simp
qed

lemma unquote_quote: "valid_utf8 v \<Longrightarrow> unquote (quote v) = v"
proof (cases "CHR ''%'' \<in> set (quote v)")
  case True
  assume v: "valid_utf8 v"
  have "\<forall>c \<in> set (quote v). isascii c"
    using quote_quoted_char quoted_char_ascii by blast
  from unquote_parts_ascii [OF this, of "[]"] True v show ?thesis
    by (simp add: unquote_def unquote_to_bytes_quote decode_utf8_replace_valid)
next
  case False
  from quote_no_percent [OF False] False show ?thesis by (simp add: unquote_def)
qed

lemma replace_char_absent: "a \<notin> set s \<Longrightarrow> replace_char a b s = s"
  by (induction s) (auto simp: replace_char_def)

lemma quote_no_plus: "CHR ''+'' \<notin> set (quote v)"
  using quote_quoted_char [of "CHR ''+''" v] always_safe_plain [of "CHR ''+''"]
  by (auto simp: quoted_char_def)

lemma unquote_plus_quote: "valid_utf8 v \<Longrightarrow> unquote_plus (quote v) = v"
  by (simp add: unquote_plus_def replace_char_absent quote_no_plus unquote_quote)

section \<open>The value codec\<close>

text \<open>
  Claim C8. A value is encoded by \<open>quote\<close> (\<open>create_upi_string\<close>) and decoded by
  \<open>unquote_plus\<close> (inside \<open>parse_qs\<close>). For every string, in particular one that holds
  \<open>&\<close>, \<open>=\<close> or a space, decoding the encoded value gives the value back, and the
  encoded form holds none of the three characters: they have been percent-escaped.
\<close>

theorem quote_unquote_round_trip:
  "valid_utf8 v \<Longrightarrow>
   unquote_plus (quote v) = v \<and>
   CHR ''&'' \<notin> set (quote v) \<and> CHR ''='' \<notin> set (quote v) \<and> CHR '' '' \<notin> set (quote v)"
proof -
  assume v: "valid_utf8 v"
  have "\<not> quoted_char CHR ''&''" "\<not> quoted_char CHR ''=''" "\<not> quoted_char CHR '' ''"
    by (simp_all add: quoted_char_def always_safe_def)
  with quote_quoted_char [of _ v] unquote_plus_quote [OF v] show ?thesis by blast
qed

theorem quote_unquote_round_trip_witness:
  "valid_utf8 ''a&b=c d'' \<and> quote ''a&b=c d'' = ''a%26b%3Dc%20d'' \<and>
   unquote_plus (quote ''a&b=c d'') = ''a&b=c d'' \<and>
   valid_utf8 [CHR 0xC3, CHR 0xA9, CHR '' ''] \<and>
   quote [CHR 0xC3, CHR 0xA9, CHR '' ''] = ''%C3%A9%20'' \<and>
   unquote_plus ''%C3%A9%20'' = [CHR 0xC3, CHR 0xA9, CHR '' '']"
proof -
  have v: "valid_utf8 ''a&b=c d''" "valid_utf8 [CHR 0xC3, CHR 0xA9, CHR '' '']"
    by (simp_all add: ord_def is_continuation_byte_def)
  have q: "quote ''a&b=c d'' = ''a%26b%3Dc%20d''"
    "quote [CHR 0xC3, CHR 0xA9, CHR '' ''] = ''%C3%A9%20''"
    by code_simp+
  from quote_unquote_round_trip [OF v(1)] quote_unquote_round_trip [OF v(2)] v q
  show ?thesis by simp
qed

section \<open>Serializing\<close>

text \<open>
  Claim C4. Serializing must leave out a field whose value is empty. The method
  \<open>UPIQRHandler.create_upi_string\<close> has no such test: for the record
  \<open>{'amount': ''}\<close> it emits the pair \<open>am=\<close>.
\<close>

theorem create_upi_string_emits_empty_value:
  "create_upi_string [(''amount'', '''')] = ''upi://pay?am=''"
  by (simp add: create_upi_string_def dict_get_def reverse_mapping_def quote_def)

text \<open>
  The function of app.py does leave such fields out: it is the method applied to the
  fields with a non-empty value.
\<close>

lemma app_create_upi_string_filter:
  "app_create_upi_string upi_params =
   create_upi_string (filter (\<lambda>(key, value). value \<noteq> []) upi_params)"
  by (simp add: app_create_upi_string_def create_upi_string_def)

section \<open>Parsing\<close>

text \<open>
  Claim C6. A text that does not begin with \<open>upi://\<close> is refused as not of this scheme,
  whatever follows and whatever the URL parser would do with it: the function of app.py
  returns the error \<open>Not a UPI payment string\<close> and no record, the method of the handler
  reports the same message, returns the empty dictionary and leaves the object as it
  was. The test is the first thing either does.
\<close>

theorem parse_rejects_other_schemes:
  "\<not> startswith text ''upi://'' \<Longrightarrow>
   app_parse_upi_string env text = (None, Some ''Not a UPI payment string'') \<and>
   parse_upi_string env self text =
     \<lparr>returned = [], self_after = self, printed = [''Not a UPI payment string'']\<rparr>"
  by (simp add: app_parse_upi_string_def parse_upi_string_def)

theorem parse_rejects_other_schemes_witness:
  "\<not> startswith ''http://pay?pa=a@b'' ''upi://'' \<and>
   app_parse_upi_string plain_env ''http://pay?pa=a@b'' = (None, Some ''Not a UPI payment string'') \<and>
   parse_upi_string plain_env init ''http://pay?pa=a@b'' =
     \<lparr>returned = [], self_after = init, printed = [''Not a UPI payment string'']\<rparr>"
  using parse_rejects_other_schemes [of "''http://pay?pa=a@b''" plain_env init]
  by (simp add: startswith_def)

section \<open>Dictionaries: properties\<close>

lemma map_fst_dict_set:
  "map fst (dict_set d k v) = (if k \<in> set (map fst d) then map fst d else map fst d @ [k])"
  by (induction d) (auto simp: rev_image_eqI)

lemma set_dict_set_subset: "set (dict_set d k v) \<subseteq> insert (k, v) (set d)"
  by (induction d) (auto split: if_splits)

lemma distinct_dict_set: "distinct (map fst d) \<Longrightarrow> distinct (map fst (dict_set d k v))"
  by (simp add: map_fst_dict_set)

lemma distinct_extract_params:
  "distinct (map fst acc) \<Longrightarrow> distinct (map fst (fst (extract_params acc items)))"
proof (induction items arbitrary: acc)
  case Nil
  then show ?case by simp
next
  case (Cons item items)
  obtain key val where item: "item = (key, val)" by (cases item)
  show ?case
  proof (cases val)
    case Nil
    with Cons.prems item show ?thesis by simp
  next
    case (Cons v vs)
    with Cons.IH [OF distinct_dict_set [OF Cons.prems]] item show ?thesis by simp
  qed
qed

lemma parse_qs_pairs_nonempty:
  "\<forall>(k, vs) \<in> set acc. vs \<noteq> [] \<Longrightarrow> \<forall>(k, vs) \<in> set (parse_qs_pairs acc pairs). vs \<noteq> []"
proof (induction pairs arbitrary: acc)
  case Nil
  then show ?case by simp
next
  case (Cons p pairs)
  obtain name val where p: "p = (name, val)" by (cases p)
  have step: "\<forall>(k, vs) \<in> set (dict_set acc name ws). vs \<noteq> []" if "ws \<noteq> []" for ws
    using set_dict_set_subset [of acc name ws] Cons.prems that by auto
  show ?case
  proof (cases "map_of acc name")
    case None
    with Cons.IH [OF step [of "[val]"]] p show ?thesis by simp
  next
    case (Some vs)
    with Cons.IH [OF step [of "vs @ [val]"]] p show ?thesis by simp
  qed
qed

lemma extract_params_no_exception:
  "\<forall>(k, vs) \<in> set items. vs \<noteq> [] \<Longrightarrow> snd (extract_params acc items) = None"
proof (induction items arbitrary: acc)
  case Nil
  then show ?case by simp
next
  case (Cons item items)
  obtain key val where item: "item = (key, val)" by (cases item)
  with Cons.prems obtain v vs where val: "val = v # vs" by (cases val) auto
  from Cons.prems have "\<forall>(k, vs) \<in> set items. vs \<noteq> []" by simp
  from Cons.IH [OF this] item val show ?case by simp
qed

lemma extract_params_parse_qs: "snd (extract_params [] (parse_qs q)) = None"
  using parse_qs_pairs_nonempty [of "[]" "parse_qsl q"]
  by (simp add: parse_qs_def extract_params_no_exception)

lemma parse_upi_string_accepted:
  "startswith s ''upi://'' \<Longrightarrow> urlparse env s = Inr parsed \<Longrightarrow>
   parse_upi_string env self s =
     \<lparr>returned = fst (extract_params [] (parse_qs (query parsed))),
      self_after = self\<lparr>upi_data := fst (extract_params [] (parse_qs (query parsed)))\<rparr>,
      printed = [[CHR 0x0A] @ ''=== UPI Payment Details ===''] @
                map (\<lambda>(key, value). key @ '': '' @ value)
                  (fst (extract_params [] (parse_qs (query parsed)))) @
                [''=========================='' @ [CHR 0x0A]]\<rparr>"
  using extract_params_parse_qs [of "query parsed"]
  by (cases "extract_params [] (parse_qs (query parsed))") (simp add: parse_upi_string_def)

lemma app_parse_upi_string_accepted:
  "startswith s ''upi://'' \<Longrightarrow> urlparse env s = Inr parsed \<Longrightarrow>
   app_parse_upi_string env s = (Some (returned (parse_upi_string env self s)), None)"
  using extract_params_parse_qs [of "query parsed"]
  by (cases "extract_params [] (parse_qs (query parsed))")
     (simp add: app_parse_upi_string_def parse_upi_string_accepted)

text \<open>
  Claim C10, as the code has it. For every input string, whatever the URL parser does
  with it, \<open>UPIQRHandler.parse_upi_string\<close> returns a dictionary (an association list
  with distinct keys); exceptions are values of the model and none leaves the method. A
  text that is not of the scheme gives the empty dictionary. When \<open>urlparse\<close> raises,
  the handler returns the dictionary filled so far, which is empty, and prints the
  exception. In the remaining case the dictionary is the one the loop over the query
  parameters has filled. The function \<open>parse_upi_string\<close> of app.py lets no exception
  out either, but it returns a pair: no record and the message
  \<open>Not a UPI payment string\<close> for a text that is not of the scheme, no record and the
  message of the exception when \<open>urlparse\<close> raises, and the record of the handler with
  no message in the remaining case.
\<close>

theorem parse_upi_string_returns_dictionary:
  "distinct (map fst (returned (parse_upi_string env self text))) \<and>
   (\<not> startswith text ''upi://'' \<longrightarrow>
      returned (parse_upi_string env self text) = [] \<and>
      app_parse_upi_string env text = (None, Some ''Not a UPI payment string'')) \<and>
   (\<forall>e. startswith text ''upi://'' \<and> urlparse env text = Inl e \<longrightarrow>
      returned (parse_upi_string env self text) = [] \<and>
      printed (parse_upi_string env self text) =
        [''Error parsing UPI string: '' @ exception_message e] \<and>
      app_parse_upi_string env text = (None, Some (exception_message e))) \<and>
   (\<forall>parsed. startswith text ''upi://'' \<and> urlparse env text = Inr parsed \<longrightarrow>
      returned (parse_upi_string env self text) =
        fst (extract_params [] (parse_qs (query parsed))) \<and>
      app_parse_upi_string env text =
        (Some (returned (parse_upi_string env self text)), None))"
proof -
  have "distinct (map fst (returned (parse_upi_string env self text)))"
  proof (cases "startswith text ''upi://''")
    case False
    then show ?thesis by (simp add: parse_upi_string_def)
  next
    case True
    show ?thesis
    proof (cases "urlparse env text")
      case (Inl e)
      with True show ?thesis by (simp add: parse_upi_string_def)
    next
      case (Inr parsed)
      from parse_upi_string_accepted [OF True Inr]
        distinct_extract_params [of "[]" "parse_qs (query parsed)"]
      show ?thesis by simp
    qed
  qed
  moreover have "returned (parse_upi_string env self text) =
      fst (extract_params [] (parse_qs (query parsed))) \<and>
      app_parse_upi_string env text =
        (Some (returned (parse_upi_string env self text)), None)"
    if "startswith text ''upi://''" "urlparse env text = Inr parsed" for parsed
    using parse_upi_string_accepted [OF that] app_parse_upi_string_accepted [OF that, of self]
    by simp
  moreover have "\<not> startswith text ''upi://'' \<longrightarrow>
      returned (parse_upi_string env self text) = [] \<and>
      app_parse_upi_string env text = (None, Some ''Not a UPI payment string'')"
    by (simp add: parse_upi_string_def app_parse_upi_string_def)
  moreover have "\<forall>e. startswith text ''upi://'' \<and> urlparse env text = Inl e \<longrightarrow>
      returned (parse_upi_string env self text) = [] \<and>
      printed (parse_upi_string env self text) =
        [''Error parsing UPI string: '' @ exception_message e] \<and>
      app_parse_upi_string env text = (None, Some (exception_message e))"
    by (simp add: parse_upi_string_def app_parse_upi_string_def)
  ultimately show ?thesis by blast
qed

theorem parse_upi_string_returns_dictionary_witness:
  "startswith ''upi://[pay?pa=a'' ''upi://'' \<and>
   urlparse plain_env ''upi://[pay?pa=a'' = Inl (ValueError ''Invalid IPv6 URL'') \<and>
   returned (parse_upi_string plain_env init ''upi://[pay?pa=a'') = [] \<and>
   printed (parse_upi_string plain_env init ''upi://[pay?pa=a'') =
     [''Error parsing UPI string: Invalid IPv6 URL''] \<and>
   app_parse_upi_string plain_env ''upi://[pay?pa=a'' = (None, Some ''Invalid IPv6 URL'') \<and>
   \<not> startswith ''pay?pa=a'' ''upi://'' \<and>
   returned (parse_upi_string plain_env init ''pay?pa=a'') = [] \<and>
   app_parse_upi_string plain_env ''pay?pa=a'' = (None, Some ''Not a UPI payment string'') \<and>
   urlparse plain_env ''upi://pay?pa=a'' =
     Inr \<lparr>scheme = ''upi'', netloc = ''pay'', path = [], query = ''pa=a'', fragment = []\<rparr> \<and>
   returned (parse_upi_string plain_env init ''upi://pay?pa=a'') = [(''payee_address'', ''a'')] \<and>
   app_parse_upi_string plain_env ''upi://pay?pa=a'' = (Some [(''payee_address'', ''a'')], None)"
proof -
  have u: "urlparse plain_env ''upi://[pay?pa=a'' = Inl (ValueError ''Invalid IPv6 URL'')"
    by code_simp
  have u': "urlparse plain_env ''upi://pay?pa=a'' =
     Inr \<lparr>scheme = ''upi'', netloc = ''pay'', path = [], query = ''pa=a'', fragment = []\<rparr>"
    by code_simp
  have e: "fst (extract_params [] (parse_qs ''pa=a'')) = [(''payee_address'', ''a'')]"
    by code_simp
  have s: "startswith ''upi://[pay?pa=a'' ''upi://''" "\<not> startswith ''pay?pa=a'' ''upi://''"
    "startswith ''upi://pay?pa=a'' ''upi://''"
    by (simp_all add: startswith_def)
  from parse_upi_string_returns_dictionary [of plain_env init "''upi://[pay?pa=a''"]
    parse_upi_string_returns_dictionary [of plain_env init "''pay?pa=a''"]
    parse_upi_string_returns_dictionary [of plain_env init "''upi://pay?pa=a''"] u u' e s
  show ?thesis by simp
qed

text \<open>
  The claim's "returns a dictionary, a non-scheme input yielding an empty dictionary"
  fails for the function of app.py: for \<open>pay?pa=a\<close> it returns no dictionary at all,
  but \<open>None\<close> with an error message.
\<close>

theorem app_parse_upi_string_returns_no_dictionary:
  "app_parse_upi_string plain_env ''pay?pa=a'' = (None, Some ''Not a UPI payment string'') \<and>
   fst (app_parse_upi_string plain_env ''pay?pa=a'') \<noteq> Some []"
  by (simp add: app_parse_upi_string_def startswith_def)

text \<open>
  Claim C9, as the code has it. What \<open>parse_upi_string\<close> returns and prints depends on
  its argument alone: it is the same on the object reached after any sequence of codec
  calls as on any other object. \<open>create_upi_string\<close> neither reads nor changes the
  object (it takes none in the model: its result is a function of the record). The
  object after a parse is determined exactly: when the text is of the scheme and
  \<open>urlparse\<close> accepts it, \<open>upi_data\<close> holds the returned record; on the two other exits
  (not of the scheme, \<open>urlparse\<close> raises) the object is left as it was.
\<close>

theorem codec_results_independent_of_state:
  "returned (parse_upi_string env (codec_run env self calls) text) =
     returned (parse_upi_string env self' text) \<and>
   printed (parse_upi_string env (codec_run env self calls) text) =
     printed (parse_upi_string env self' text) \<and>
   codec_step env self (Create_call upi_params) = self \<and>
   self_after (parse_upi_string env self text) =
     (if startswith text ''upi://'' then
        (case urlparse env text of
           Inl e \<Rightarrow> self
         | Inr parsed \<Rightarrow> self\<lparr>upi_data := returned (parse_upi_string env self text)\<rparr>)
      else self)"
proof -
  have "self_after (parse_upi_string env self text) =
     (if startswith text ''upi://'' then
        (case urlparse env text of
           Inl e \<Rightarrow> self
         | Inr parsed \<Rightarrow> self\<lparr>upi_data := returned (parse_upi_string env self text)\<rparr>)
      else self)"
  proof (cases "startswith text ''upi://''")
    case False
    then show ?thesis by (simp add: parse_upi_string_def)
  next
    case True
    show ?thesis
    proof (cases "urlparse env text")
      case (Inl e)
      with True show ?thesis by (simp add: parse_upi_string_def)
    next
      case (Inr parsed)
      with True parse_upi_string_accepted [OF True Inr, of self] show ?thesis by simp
    qed
  qed
  moreover have "returned (parse_upi_string env (codec_run env self calls) text) =
     returned (parse_upi_string env self' text) \<and>
   printed (parse_upi_string env (codec_run env self calls) text) =
     printed (parse_upi_string env self' text)"
    by (auto simp: parse_upi_string_def split: sum.splits prod.splits option.splits)
  ultimately show ?thesis by simp
qed

theorem codec_results_independent_of_state_witness:
  "self_after (parse_upi_string plain_env \<lparr>upi_data = [(''amount'', ''7'')]\<rparr> ''upi://pay?pa=a'') =
     \<lparr>upi_data = [(''payee_address'', ''a'')]\<rparr> \<and>
   self_after (parse_upi_string plain_env \<lparr>upi_data = [(''amount'', ''7'')]\<rparr> ''upi://[pay?pa=a'') =
     \<lparr>upi_data = [(''amount'', ''7'')]\<rparr> \<and>
   self_after (parse_upi_string plain_env \<lparr>upi_data = [(''amount'', ''7'')]\<rparr> ''pay?pa=a'') =
     \<lparr>upi_data = [(''amount'', ''7'')]\<rparr> \<and>
   returned (parse_upi_string plain_env
      (codec_run plain_env init [Parse_call ''upi://pay?am=5'', Create_call [(''url'', ''x'')]])
      ''upi://pay?pa=a'') = [(''payee_address'', ''a'')]"
proof -
  let ?h = "\<lparr>upi_data = [(''amount'', ''7'')]\<rparr>"
  have u: "urlparse plain_env ''upi://[pay?pa=a'' = Inl (ValueError ''Invalid IPv6 URL'')"
    by code_simp
  have u': "urlparse plain_env ''upi://pay?pa=a'' =
     Inr \<lparr>scheme = ''upi'', netloc = ''pay'', path = [], query = ''pa=a'', fragment = []\<rparr>"
    by code_simp
  have r: "returned (parse_upi_string plain_env ?h ''upi://pay?pa=a'') = [(''payee_address'', ''a'')]"
    by code_simp
  have s: "startswith ''upi://[pay?pa=a'' ''upi://''" "\<not> startswith ''pay?pa=a'' ''upi://''"
    "startswith ''upi://pay?pa=a'' ''upi://''"
    by (simp_all add: startswith_def)
  from codec_results_independent_of_state [of plain_env ?h "[]" "''upi://pay?pa=a''" ?h]
    codec_results_independent_of_state [of plain_env ?h "[]" "''upi://[pay?pa=a''" ?h]
    codec_results_independent_of_state [of plain_env ?h "[]" "''pay?pa=a''" ?h]
    codec_results_independent_of_state [of plain_env init
      "[Parse_call ''upi://pay?am=5'', Create_call [(''url'', ''x'')]]" "''upi://pay?pa=a''" ?h]
    u u' r s
  show ?thesis by simp
qed

text \<open>
  The claim's "no state is retained across calls" fails: after a successful parse the
  object holds the parsed record in \<open>upi_data\<close>.
\<close>

theorem parse_upi_string_retains_state:
  "upi_data (self_after (parse_upi_string plain_env init ''upi://pay?pa=a'')) =
     [(''payee_address'', ''a'')] \<and>
   self_after (parse_upi_string plain_env init ''upi://pay?pa=a'') \<noteq> init"
  by code_simp

section \<open>Decode, modify, encode\<close>

text \<open>
  Claim C3. An override with an empty value must be ignored. The method
  \<open>UPIQRHandler.decode_and_encode\<close> applies \<open>modify_params\<close> with \<open>update\<close>, without a
  test: for the payload \<open>upi://pay?pa=shop@upi&am=100\<close> and the override
  \<open>{'amount': ''}\<close> the image it saves encodes \<open>am=\<close>, the amount is blanked.
\<close>

theorem decode_and_encode_blanks_field:
  "decode_and_encode plain_env (\<lambda>image_path. Some ''upi://pay?pa=shop@upi&am=100'')
     (\<lambda>data output_path. None) init ''in.png'' ''out.png'' (Some [(''amount'', '''')]) =
   (True, [(''out.png'', ''upi://pay?pa=shop%40upi&am='')])"
  by code_simp

text \<open>
  The loop of the route \<open>/modify\<close> in app.py does ignore such overrides: it is the
  update by the entries with a non-empty value (and a key other than \<open>file\<close>).
\<close>

lemma apply_modifications_filter:
  "apply_modifications upi_params modifications =
   dict_update upi_params (filter (\<lambda>(key, value). key \<noteq> ''file'' \<and> value \<noteq> []) modifications)"
  by (induction modifications arbitrary: upi_params) auto

text \<open>
  Claim C5, as the code has it. For every decoded payload that does not begin with
  \<open>upi://\<close>, the empty one included, the route \<open>/modify\<close> of app.py answers with the
  error \<open>Not a UPI QR code\<close> (status 400) and saves no image.
  \<open>UPIQRHandler.decode_and_encode\<close> instead hands such a payload, when it is not empty,
  as it is to the encoder (\<open># If not UPI, just use the original data\<close>); on the empty
  payload it returns \<open>False\<close> and saves nothing.
\<close>

theorem non_scheme_payload:
  assumes "\<not> startswith qr_data ''upi://''"
    and "file_name \<noteq> []" and "decode_qr_code filepath = (Some qr_data, error)"
    and "\<not> truthy error" and "decode_qr input_image = Some qr_data"
  shows "modify env decode_qr_code generate_qr_code True file_name filepath modifications
           new_filename = (Json_error ''Not a UPI QR code'' 400, []) \<and>
         decode_and_encode env decode_qr qr_error self input_image output_image modify_params =
           (if qr_data = [] then (False, []) else encode_qr qr_error qr_data output_image)"
  using assms by (simp add: modify_def decode_and_encode_def)

theorem non_scheme_payload_witness:
  "\<not> startswith ''hello'' ''upi://'' \<and> \<not> truthy None \<and>
   modify plain_env (\<lambda>filepath. (Some ''hello'', None)) (\<lambda>data filename. (Some filename, None))
     True ''a.png'' ''uploads/a.png'' [(''amount'', ''1'')] ''m.png'' =
     (Json_error ''Not a UPI QR code'' 400, []) \<and>
   decode_and_encode plain_env (\<lambda>image_path. Some ''hello'') (\<lambda>data output_path. None) init
     ''in.png'' ''out.png'' (Some [(''amount'', ''1'')]) =
     encode_qr (\<lambda>data output_path. None) ''hello'' ''out.png'' \<and>
   \<not> startswith [] ''upi://'' \<and>
   modify plain_env (\<lambda>filepath. (Some [], None)) (\<lambda>data filename. (Some filename, None))
     True ''a.png'' ''uploads/a.png'' [(''amount'', ''1'')] ''m.png'' =
     (Json_error ''Not a UPI QR code'' 400, []) \<and>
   decode_and_encode plain_env (\<lambda>image_path. Some []) (\<lambda>data output_path. None) init
     ''in.png'' ''out.png'' (Some [(''amount'', ''1'')]) = (False, [])"
proof -
  have s: "\<not> startswith ''hello'' ''upi://''" "\<not> startswith [] ''upi://''"
    by (simp_all add: startswith_def)
  have t: "\<not> truthy None" by (simp add: truthy_def)
  have n: "''a.png'' \<noteq> []" by simp
  from non_scheme_payload [OF s(1) n _ t, of "\<lambda>filepath. (Some ''hello'', None)" "''uploads/a.png''"
      "\<lambda>image_path. Some ''hello''" "''in.png''"]
    non_scheme_payload [OF s(2) n _ t, of "\<lambda>filepath. (Some [], None)" "''uploads/a.png''"
      "\<lambda>image_path. Some []" "''in.png''"] s t
  show ?thesis by simp
qed

text \<open>
  The claim's "never re-encodes a non-scheme payload" fails for the handler: the payload
  \<open>hello\<close> is saved as a new image.
\<close>

theorem decode_and_encode_reencodes_other_payload:
  "decode_and_encode plain_env (\<lambda>image_path. Some ''hello'') (\<lambda>data output_path. None) init
     ''in.png'' ''out.png'' (Some [(''amount'', ''1'')]) = (True, [(''out.png'', ''hello'')])"
  by (simp add: decode_and_encode_def startswith_def encode_qr_def)

section \<open>Parsing: which pairs reach the record\<close>

lemma map_of_dict_set: "map_of (dict_set d k v) k' = (if k' = k then Some v else map_of d k')"
  by (induction d) auto

lemma values_of_Cons:
  "values_of n ((m, v) # pairs) = (if m = n then v # values_of n pairs else values_of n pairs)"
  by (simp add: values_of_def)

lemma values_of_Nil_iff: "values_of n pairs = [] \<longleftrightarrow> n \<notin> fst ` set pairs"
  by (induction pairs) (auto simp: values_of_def)

lemma map_of_parse_qs_pairs:
  "map_of (parse_qs_pairs acc pairs) n =
     (case map_of acc n of
        Some vs \<Rightarrow> Some (vs @ values_of n pairs)
      | None \<Rightarrow> if values_of n pairs = [] then None else Some (values_of n pairs))"
proof (induction pairs arbitrary: acc)
  case Nil
  show ?case by (simp add: values_of_def split: option.splits)
next
  case (Cons p pairs)
  obtain m v where p: "p = (m, v)" by (cases p)
  show ?case
  proof (cases "map_of acc m")
    case None
    with p have "parse_qs_pairs acc (p # pairs) = parse_qs_pairs (dict_set acc m [v]) pairs"
      by simp
    with Cons [of "dict_set acc m [v]"] None p show ?thesis
      by (auto simp: map_of_dict_set values_of_Cons split: option.splits)
  next
    case (Some ws)
    with p have "parse_qs_pairs acc (p # pairs) = parse_qs_pairs (dict_set acc m (ws @ [v])) pairs"
      by simp
    with Cons [of "dict_set acc m (ws @ [v])"] Some p show ?thesis
      by (auto simp: map_of_dict_set values_of_Cons split: option.splits)
  qed
qed

lemma distinct_parse_qs_pairs:
  "distinct (map fst acc) \<Longrightarrow> distinct (map fst (parse_qs_pairs acc pairs))"
proof (induction pairs arbitrary: acc)
  case Nil
  then show ?case by simp
next
  case (Cons p pairs)
  obtain m v where p: "p = (m, v)" by (cases p)
  from Cons.IH [OF distinct_dict_set [OF Cons.prems]] p show ?case
    by (simp split: option.splits)
qed

lemma parse_qs_lookup:
  "map_of (parse_qs q) n =
     (if values_of n (parse_qsl q) = [] then None else Some (values_of n (parse_qsl q)))"
  by (simp add: parse_qs_def map_of_parse_qs_pairs)

lemma parse_qs_member:
  "(n, vs) \<in> set (parse_qs q) \<longleftrightarrow> vs \<noteq> [] \<and> vs = values_of n (parse_qsl q)"
proof -
  have "distinct (map fst (parse_qs q))"
    by (simp add: parse_qs_def distinct_parse_qs_pairs)
  then have "(n, vs) \<in> set (parse_qs q) \<longleftrightarrow> map_of (parse_qs q) n = Some vs"
    by simp
  then show ?thesis by (auto simp: parse_qs_lookup)
qed


lemma map_of_extract_params_other:
  "\<forall>(n, vs) \<in> set items. dict_get param_mapping n \<noteq> K \<Longrightarrow>
   map_of (fst (extract_params acc items)) K = map_of acc K"
proof (induction items arbitrary: acc)
  case Nil
  show ?case by simp
next
  case (Cons item items)
  obtain n vs where item: "item = (n, vs)" by (cases item)
  from Cons.prems item have n: "dict_get param_mapping n \<noteq> K"
    and rest: "\<forall>(n, vs) \<in> set items. dict_get param_mapping n \<noteq> K" by auto
  show ?case
  proof (cases vs)
    case Nil
    with item show ?thesis by simp
  next
    case (Cons w ws)
    with Cons.IH [OF rest, of "dict_set acc (dict_get param_mapping n) w"] item n show ?thesis
      by (simp add: map_of_dict_set)
  qed
qed

lemma map_of_extract_params_unique:
  assumes "\<forall>(n, vs) \<in> set items. vs \<noteq> []"
    and "(key, ws) \<in> set items"
    and "\<forall>(n, vs) \<in> set items.
           dict_get param_mapping n = dict_get param_mapping key \<longrightarrow> n = key \<and> vs = ws"
  shows "map_of (fst (extract_params acc items)) (dict_get param_mapping key) = Some (hd ws)"
  using assms
proof (induction items arbitrary: acc)
  case Nil
  then show ?case by simp
next
  case (Cons item items)
  obtain n vs where item: "item = (n, vs)" by (cases item)
  from Cons.prems(1) item obtain v vs' where vs: "vs = v # vs'" by (cases vs) auto
  have step: "extract_params acc (item # items) =
      extract_params (dict_set acc (dict_get param_mapping n) v) items"
    using item vs by simp
  from Cons.prems have ne: "\<forall>(n, vs) \<in> set items. vs \<noteq> []"
    and un: "\<forall>(n, vs) \<in> set items.
           dict_get param_mapping n = dict_get param_mapping key \<longrightarrow> n = key \<and> vs = ws"
    by auto
  show ?case
  proof (cases "(key, ws) \<in> set items")
    case True
    from Cons.IH [OF ne True un] step show ?thesis by simp
  next
    case False
    with Cons.prems(2) item have here: "n = key" "vs = ws" by auto
    from un False have "\<forall>(n, vs) \<in> set items. dict_get param_mapping n \<noteq> dict_get param_mapping key"
      by auto
    from map_of_extract_params_other [OF this] step here vs show ?thesis
      by (auto simp add: map_of_dict_set)
  qed
qed

lemma map_of_first_value:
  "map_of pairs n = Some v \<Longrightarrow> hd (values_of n pairs) = v \<and> values_of n pairs \<noteq> []"
  by (induction pairs) (auto simp: values_of_def split: if_splits)

lemma parse_upi_string_accepted_returned:
  "startswith s ''upi://'' \<Longrightarrow> urlparse env s = Inr parsed \<Longrightarrow>
   returned (parse_upi_string env self s) = fst (extract_params [] (parse_qs (query parsed)))"
  by (simp add: parse_upi_string_accepted)

text \<open>
  Claim C2, as the code has it. \<open>parse_qs\<close> collects the values of a repeated key in
  a list and the loop takes \<open>value[0]\<close>: for every text of the scheme that \<open>urlparse\<close>
  accepts, the record holds, under the field name of a key, the value of the key's first
  pair among the pairs of the query (\<open>parse_qsl\<close>, which drops pairs with an empty
  value), provided no other key of the query is mapped to the same field name. Later
  pairs of the same key are ignored. The function of app.py returns the same record.
\<close>

theorem first_occurrence_wins:
  assumes "startswith text ''upi://''" and "urlparse env text = Inr parsed"
    and "map_of (parse_qsl (query parsed)) key = Some v"
    and "\<forall>n \<in> fst ` set (parse_qsl (query parsed)).
           dict_get param_mapping n = dict_get param_mapping key \<longrightarrow> n = key"
  shows "map_of (returned (parse_upi_string env self text)) (dict_get param_mapping key) = Some v \<and>
         app_parse_upi_string env text = (Some (returned (parse_upi_string env self text)), None)"
proof -
  let ?pairs = "parse_qsl (query parsed)"
  let ?items = "parse_qs (query parsed)"
  from map_of_first_value [OF assms(3)]
  have v: "hd (values_of key ?pairs) = v" and ne: "values_of key ?pairs \<noteq> []" by simp_all
  have a: "\<forall>(n, vs) \<in> set ?items. vs \<noteq> []"
    by (auto simp: parse_qs_member)
  have b: "(key, values_of key ?pairs) \<in> set ?items"
    using ne by (simp add: parse_qs_member)
  have c: "\<forall>(n, vs) \<in> set ?items.
      dict_get param_mapping n = dict_get param_mapping key \<longrightarrow>
      n = key \<and> vs = values_of key ?pairs"
  proof (clarify)
    fix n vs
    assume m: "(n, vs) \<in> set ?items"
      and eq: "dict_get param_mapping n = dict_get param_mapping key"
    from m have vs: "vs \<noteq> []" "vs = values_of n ?pairs" by (auto simp add: parse_qs_member)
    then have "n \<in> fst ` set ?pairs" using values_of_Nil_iff [of n ?pairs] by auto
    with assms(4) eq have "n = key" by blast
    with vs show "n = key \<and> vs = values_of key ?pairs" by simp
  qed
  from map_of_extract_params_unique [OF a b c, of "[]"] v
    parse_upi_string_accepted_returned [OF assms(1,2)]
    app_parse_upi_string_accepted [OF assms(1,2)]
  show ?thesis by simp
qed

theorem first_occurrence_wins_witness:
  "startswith ''upi://pay?am=1&am=2'' ''upi://'' \<and>
   urlparse plain_env ''upi://pay?am=1&am=2'' =
     Inr \<lparr>scheme = ''upi'', netloc = ''pay'', path = [], query = ''am=1&am=2'', fragment = []\<rparr> \<and>
   parse_qsl ''am=1&am=2'' = [(''am'', ''1''), (''am'', ''2'')] \<and>
   map_of (returned (parse_upi_string plain_env init ''upi://pay?am=1&am=2'')) ''amount'' = Some ''1'' \<and>
   app_parse_upi_string plain_env ''upi://pay?am=1&am=2'' = (Some [(''amount'', ''1'')], None)"
proof -
  have s: "startswith ''upi://pay?am=1&am=2'' ''upi://''" by (simp add: startswith_def)
  have u: "urlparse plain_env ''upi://pay?am=1&am=2'' =
     Inr \<lparr>scheme = ''upi'', netloc = ''pay'', path = [], query = ''am=1&am=2'', fragment = []\<rparr>"
    by code_simp
  have q: "parse_qsl ''am=1&am=2'' = [(''am'', ''1''), (''am'', ''2'')]" by code_simp
  have m: "dict_get param_mapping ''am'' = ''amount''" by code_simp
  have r: "returned (parse_upi_string plain_env init ''upi://pay?am=1&am=2'') = [(''amount'', ''1'')]"
    by code_simp
  from first_occurrence_wins [OF s u, of "''am''" "''1''" init] q m s u r
  show ?thesis by simp
qed

text \<open>
  The claim's "last occurrence wins" fails: \<open>upi://pay?am=1&am=2\<close> gives the amount
  \<open>1\<close>.
\<close>

theorem last_occurrence_does_not_win:
  "returned (parse_upi_string plain_env init ''upi://pay?am=1&am=2'') = [(''amount'', ''1'')] \<and>
   map_of (returned (parse_upi_string plain_env init ''upi://pay?am=1&am=2'')) ''amount'' \<noteq> Some ''2'' \<and>
   app_parse_upi_string plain_env ''upi://pay?am=1&am=2'' = (Some [(''amount'', ''1'')], None)"
  by code_simp

lemma extract_params_member:
  "(k, v) \<in> set (fst (extract_params acc items)) \<Longrightarrow>
   (k, v) \<in> set acc \<or>
   (\<exists>(n, vs) \<in> set items. vs \<noteq> [] \<and> k = dict_get param_mapping n \<and> v = hd vs)"
proof (induction items arbitrary: acc)
  case Nil
  then show ?case by simp
next
  case (Cons item items)
  obtain n vs where item: "item = (n, vs)" by (cases item)
  show ?case
  proof (cases vs)
    case Nil
    with Cons.prems item show ?thesis by simp
  next
    case (Cons w ws)
    with Cons.prems item
    have "(k, v) \<in> set (fst (extract_params (dict_set acc (dict_get param_mapping n) w) items))"
      by simp
    from Cons.IH [OF this] set_dict_set_subset [of acc "dict_get param_mapping n" w] item Cons
    show ?thesis by auto
  qed
qed

lemma parse_qsl_fields_member:
  "(n, v) \<in> set (parse_qsl_fields fs) \<Longrightarrow>
   \<exists>f \<in> set fs. snd (snd (partition_char CHR ''='' f)) \<noteq> [] \<and>
     n = unquote_plus (fst (partition_char CHR ''='' f)) \<and>
     v = unquote_plus (snd (snd (partition_char CHR ''='' f)))"
proof (induction fs)
  case Nil
  then show ?case by simp
next
  case (Cons f fs)
  obtain name has_eq val where p: "partition_char CHR ''='' f = (name, has_eq, val)"
    by (cases "partition_char CHR ''='' f") auto
  show ?case
  proof (cases "f \<noteq> [] \<and> val \<noteq> []")
    case True
    with p have "parse_qsl_fields (f # fs) = (unquote_plus name, unquote_plus val) # parse_qsl_fields fs"
      by simp
    with Cons p True show ?thesis by auto
  next
    case False
    with p have "parse_qsl_fields (f # fs) = parse_qsl_fields fs" by auto
    with Cons show ?thesis by auto
  qed
qed

lemma parse_qsl_member:
  "(n, v) \<in> set (parse_qsl q) \<Longrightarrow>
   \<exists>f \<in> set (split_char CHR ''&'' q). snd (snd (partition_char CHR ''='' f)) \<noteq> [] \<and>
     n = unquote_plus (fst (partition_char CHR ''='' f)) \<and>
     v = unquote_plus (snd (snd (partition_char CHR ''='' f)))"
  by (cases "q = []") (auto simp: parse_qsl_def dest: parse_qsl_fields_member)

lemma partition_char_value: "snd (snd (partition_char sep f)) \<noteq> [] \<Longrightarrow> sep \<in> set f"
proof (rule ccontr)
  assume "sep \<notin> set f"
  then have d: "dropWhile (\<lambda>c. c \<noteq> sep) f = []" by (auto simp add: dropWhile_eq_Nil_conv)
  have "snd (snd (partition_char sep f)) = drop 1 (dropWhile (\<lambda>c. c \<noteq> sep) f)"
    by (simp add: partition_char_def)
  also have "\<dots> = []" unfolding d by simp
  finally have "snd (snd (partition_char sep f)) = []" .
  moreover assume "snd (snd (partition_char sep f)) \<noteq> []"
  ultimately show False by simp
qed

lemma decode_utf8_replace_not_Nil: "bs \<noteq> [] \<Longrightarrow> decode_utf8_replace bs \<noteq> []"
  by (cases bs) (auto simp: replacement_character_def split: list.splits)

lemma split_char_sep_tl: "sep \<in> set s \<Longrightarrow> tl (split_char sep s) \<noteq> []"
  by (induction s) (auto split: list.splits)

lemma unquote_item_not_Nil: "unquote_item item \<noteq> []"
  by (simp add: unquote_item_def split: option.splits)

lemma unquote_to_bytes_not_Nil: "s \<noteq> [] \<Longrightarrow> unquote_to_bytes s \<noteq> []"
proof (cases "CHR ''%'' \<in> set s")
  case True
  from split_char_sep_tl [OF this] obtain item items
    where "tl (split_char CHR ''%'' s) = item # items"
    by (cases "tl (split_char CHR ''%'' s)") auto
  then show ?thesis
    by (simp add: unquote_to_bytes_bits unquote_bits_def unquote_item_not_Nil)
next
  case False
  assume "s \<noteq> []"
  with False show ?thesis
    by (simp add: unquote_to_bytes_bits unquote_bits_def split_char_no_sep)
qed

lemma unquote_parts_Nil: "unquote_parts run s = [] \<Longrightarrow> run = [] \<and> s = []"
proof (induction s arbitrary: run)
  case Nil
  then show ?case
    using decode_utf8_replace_not_Nil [OF unquote_to_bytes_not_Nil, of run] by auto
next
  case (Cons c s)
  show ?case
  proof (cases "isascii c")
    case True
    with Cons.prems Cons.IH [of "run @ [c]"] show ?thesis by simp
  next
    case False
    with Cons.prems show ?thesis by simp
  qed
qed

lemma unquote_plus_not_Nil: "s \<noteq> [] \<Longrightarrow> unquote_plus s \<noteq> []"
  using unquote_parts_Nil [of "[]" "replace_char CHR ''+'' CHR '' '' s"]
  by (auto simp: unquote_plus_def unquote_def replace_char_def)

lemma values_of_subset: "set (values_of n pairs) \<subseteq> snd ` {p \<in> set pairs. fst p = n}"
  by (auto simp: values_of_def)

text \<open>
  Claim C7, as the code has it. For every text of the scheme that \<open>urlparse\<close> accepts,
  the parse reports no error (it stores the record and prints the details), every value
  of the record is non-empty, and every key of the record comes from a pair of the query
  that has an \<open>=\<close> sign: a pair without \<open>=\<close> is skipped and adds no key. The
  function of app.py returns the same record and no error.
\<close>

theorem pair_without_equals_is_skipped:
  assumes "startswith text ''upi://''" and "urlparse env text = Inr parsed"
  shows "app_parse_upi_string env text = (Some (returned (parse_upi_string env self text)), None) \<and>
         self_after (parse_upi_string env self text) =
           self\<lparr>upi_data := returned (parse_upi_string env self text)\<rparr> \<and>
         printed (parse_upi_string env self text) =
           [[CHR 0x0A] @ ''=== UPI Payment Details ===''] @
           map (\<lambda>(key, value). key @ '': '' @ value) (returned (parse_upi_string env self text)) @
           [''=========================='' @ [CHR 0x0A]] \<and>
         (\<forall>(k, v) \<in> set (returned (parse_upi_string env self text)).
            v \<noteq> [] \<and>
            (\<exists>f \<in> set (split_char CHR ''&'' (query parsed)).
               CHR ''='' \<in> set f \<and>
               k = dict_get param_mapping (unquote_plus (fst (partition_char CHR ''='' f)))))"
proof -
  let ?r = "parse_upi_string env self text"
  let ?pairs = "parse_qsl (query parsed)"
  have "v \<noteq> [] \<and>
        (\<exists>f \<in> set (split_char CHR ''&'' (query parsed)).
           CHR ''='' \<in> set f \<and>
           k = dict_get param_mapping (unquote_plus (fst (partition_char CHR ''='' f))))"
    if kv: "(k, v) \<in> set (returned ?r)" for k v
  proof -
    from kv parse_upi_string_accepted_returned [OF assms]
    have "(k, v) \<in> set (fst (extract_params [] (parse_qs (query parsed))))" by simp
    from extract_params_member [OF this] obtain n vs
      where item: "(n, vs) \<in> set (parse_qs (query parsed))" "vs \<noteq> []"
        and k: "k = dict_get param_mapping n" and v: "v = hd vs"
      by auto
    from item have "vs = values_of n ?pairs" by (simp add: parse_qs_member)
    with item(2) v have "v \<in> set (values_of n ?pairs)" by simp
    with values_of_subset [of n ?pairs] have "(n, v) \<in> set ?pairs" by auto
    from parse_qsl_member [OF this] obtain f
      where f: "f \<in> set (split_char CHR ''&'' (query parsed))"
        "snd (snd (partition_char CHR ''='' f)) \<noteq> []"
        "n = unquote_plus (fst (partition_char CHR ''='' f))"
        "v = unquote_plus (snd (snd (partition_char CHR ''='' f)))"
      by blast
    from f(2,4) have "v \<noteq> []" by (simp add: unquote_plus_not_Nil)
    with f k partition_char_value [OF f(2)] show ?thesis by blast
  qed
  with parse_upi_string_accepted [OF assms, of self] app_parse_upi_string_accepted [OF assms, of self]
  show ?thesis by auto
qed

theorem pair_without_equals_is_skipped_witness:
  "startswith ''upi://pay?pa&am=5'' ''upi://'' \<and>
   urlparse plain_env ''upi://pay?pa&am=5'' =
     Inr \<lparr>scheme = ''upi'', netloc = ''pay'', path = [], query = ''pa&am=5'', fragment = []\<rparr> \<and>
   split_char CHR ''&'' ''pa&am=5'' = [''pa'', ''am=5''] \<and>
   returned (parse_upi_string plain_env init ''upi://pay?pa&am=5'') = [(''amount'', ''5'')] \<and>
   self_after (parse_upi_string plain_env init ''upi://pay?pa&am=5'') =
     \<lparr>upi_data = [(''amount'', ''5'')]\<rparr> \<and>
   app_parse_upi_string plain_env ''upi://pay?pa&am=5'' = (Some [(''amount'', ''5'')], None)"
proof -
  have s: "startswith ''upi://pay?pa&am=5'' ''upi://''" by (simp add: startswith_def)
  have u: "urlparse plain_env ''upi://pay?pa&am=5'' =
     Inr \<lparr>scheme = ''upi'', netloc = ''pay'', path = [], query = ''pa&am=5'', fragment = []\<rparr>"
    by code_simp
  have r: "returned (parse_upi_string plain_env init ''upi://pay?pa&am=5'') = [(''amount'', ''5'')]"
    by code_simp
  have sp: "split_char CHR ''&'' ''pa&am=5'' = [''pa'', ''am=5'']" by simp
  from pair_without_equals_is_skipped [OF s u, of init] s u r sp
  show ?thesis by (simp add: init_def)
qed

text \<open>
  The claim's "the key appears with the empty value" fails: \<open>upi://pay?pa\<close> gives the
  empty record.
\<close>

theorem pair_without_equals_adds_no_key:
  "returned (parse_upi_string plain_env init ''upi://pay?pa'') = [] \<and>
   map_of (returned (parse_upi_string plain_env init ''upi://pay?pa'')) ''payee_address'' \<noteq> Some [] \<and>
   map_of (returned (parse_upi_string plain_env init ''upi://pay?pa'')) ''pa'' \<noteq> Some [] \<and>
   app_parse_upi_string plain_env ''upi://pay?pa'' = (Some [], None)"
  by code_simp

section \<open>Serializing, then parsing\<close>

lemma ascii_valid_utf8: "\<forall>c \<in> set v. isascii c \<Longrightarrow> valid_utf8 v"
  by (induction v) (auto simp: isascii_def)

lemma remove_unsafe_plain:
  "\<forall>c \<in> set s. url_plain c \<Longrightarrow>
   foldl (\<lambda>url b. remove_char b url) s unsafe_url_bytes_to_remove = s"
  by (simp add: unsafe_url_bytes_to_remove_def remove_char_def url_plain_def filter_id_conv)

lemma urlsplit_upi_pay:
  assumes "\<forall>c \<in> set q. url_plain c"
  shows "urlsplit env (''upi://pay?'' @ q) =
     Inr \<lparr>scheme = ''upi'', netloc = ''pay'', path = [], query = q, fragment = []\<rparr>"
proof -
  have plain: "\<forall>c \<in> set (''upi://pay?'' @ q). url_plain c"
    using assms by (auto simp: url_plain_def unsafe_url_bytes_to_remove_def)
  have strip: "dropWhile whatwg_c0_control_or_space (''upi://pay?'' @ q) = ''upi://pay?'' @ q"
    by (simp add: whatwg_c0_control_or_space_def ord_def)
  have nohash: "CHR ''#'' \<notin> set q" using assms by (auto simp: url_plain_def)
  have lower: "map ascii_lower ''upi'' = ''upi''" by (simp add: ascii_lower_def ord_def)
  have sch: "\<forall>c \<in> set ''upi''. c \<in> set scheme_chars" by (simp add: scheme_chars_def)
  have alpha: "isascii CHR ''u''" "ascii_isalpha CHR ''u''"
    by (simp_all add: isascii_def ascii_isalpha_def ord_def)
  have nl: "checknetloc env ''pay'' = None"
    by (simp add: checknetloc_def isascii_def ord_def)
  have sfq: "split_fragment_query env ''upi'' ''pay'' (CHR ''?'' # q) =
     Inr \<lparr>scheme = ''upi'', netloc = ''pay'', path = [], query = q, fragment = []\<rparr>"
    using nohash nl by (simp add: split_fragment_query_def partition_char_def)
  have url2: "foldl (\<lambda>url b. remove_char b url)
      (dropWhile whatwg_c0_control_or_space (''upi://pay?'' @ q)) unsafe_url_bytes_to_remove =
      ''upi://pay?'' @ q"
    by (simp only: strip remove_unsafe_plain [OF plain])
  have pre: "takeWhile (\<lambda>c. c \<noteq> CHR '':'') (''upi://pay?'' @ q) = ''upi''" by simp
  have rest: "drop (length ''upi'' + 1) (''upi://pay?'' @ q) = ''//pay?'' @ q" by simp
  have has: "CHR '':'' \<in> set (''upi://pay?'' @ q)" "hd (''upi://pay?'' @ q) = CHR ''u''" by simp_all
  have net: "splitnetloc (''//pay?'' @ q) 2 = (''pay'', CHR ''?'' # q)"
    by (simp add: splitnetloc_def netloc_delim_def)
  have two: "take 2 (''//pay?'' @ q) = ''//''" by simp
  have br: "CHR ''['' \<notin> set ''pay''" "CHR '']'' \<notin> set ''pay''" by simp_all
  show ?thesis
    unfolding urlsplit_def Let_def url2 pre rest
    using has sch alpha lower two net sfq by simp
qed


lemma split_char_append_sep:
  "sep \<notin> set a \<Longrightarrow> split_char sep (a @ sep # b) = a # split_char sep b"
  by (induction a) auto

lemma split_char_join:
  "fs \<noteq> [] \<Longrightarrow> \<forall>f \<in> set fs. sep \<notin> set f \<Longrightarrow> split_char sep (join [sep] fs) = fs"
proof (induction fs)
  case Nil
  then show ?case by simp
next
  case (Cons f fs)
  show ?case
  proof (cases fs)
    case Nil
    with Cons.prems show ?thesis by (simp add: split_char_no_sep)
  next
    case (Cons g gs)
    with Cons.prems Cons.IH have "split_char sep (join [sep] (g # gs)) = g # gs" by simp
    moreover from Cons.prems have "sep \<notin> set f" by simp
    ultimately show ?thesis
      using Cons split_char_append_sep [of sep f "join [sep] (g # gs)"] by simp
  qed
qed

lemma set_join: "x \<in> set (join sep fs) \<Longrightarrow> x \<in> set sep \<or> (\<exists>f \<in> set fs. x \<in> set f)"
  by (induction sep fs rule: join.induct) auto

lemma join_Nil_iff: "\<forall>f \<in> set fs. f \<noteq> [] \<Longrightarrow> join sep fs = [] \<longleftrightarrow> fs = []"
  by (induction sep fs rule: join.induct) auto

lemma recognized_fields_table:
  "list_all (\<lambda>k. dict_get param_mapping (dict_get reverse_mapping k) = k \<and>
                  dict_get reverse_mapping k \<noteq> [] \<and>
                  list_all always_safe (dict_get reverse_mapping k)) recognized_fields"
  by code_simp

lemma recognized_short_key:
  "k \<in> set recognized_fields \<Longrightarrow>
   dict_get param_mapping (dict_get reverse_mapping k) = k \<and>
   dict_get reverse_mapping k \<noteq> [] \<and>
   (\<forall>c \<in> set (dict_get reverse_mapping k). always_safe c)"
  using recognized_fields_table by (simp add: list_all_iff)

lemma partition_char_append_sep:
  "sep \<notin> set a \<Longrightarrow> partition_char sep (a @ sep # b) = (a, True, b)"
  by (induction a) (auto simp: partition_char_def)

lemma unquote_plus_plain:
  "\<forall>c \<in> set s. always_safe c \<Longrightarrow> unquote_plus s = s"
proof -
  assume a: "\<forall>c \<in> set s. always_safe c"
  then have "CHR ''+'' \<notin> set s" "CHR ''%'' \<notin> set s"
    using always_safe_plain by blast+
  then show ?thesis by (simp add: unquote_plus_def unquote_def replace_char_absent)
qed

lemma quote_not_Nil: "v \<noteq> [] \<Longrightarrow> quote v \<noteq> []"
  by (cases v) (auto simp: quote_def quote_from_bytes_def quoter_def)

lemma parse_qsl_fields_upi_fields:
  "\<forall>(key, value) \<in> set r. key \<in> set recognized_fields \<and> value \<noteq> [] \<and> valid_utf8 value \<Longrightarrow>
   parse_qsl_fields (map upi_field r) =
   map (\<lambda>(key, value). (dict_get reverse_mapping key, value)) r"
proof (induction r)
  case Nil
  show ?case by simp
next
  case (Cons kv r)
  obtain k v where kv: "kv = (k, v)" by (cases kv)
  with Cons.prems have k: "k \<in> set recognized_fields" and v: "v \<noteq> []" "valid_utf8 v" by auto
  let ?sk = "dict_get reverse_mapping k"
  from recognized_short_key [OF k]
  have sk: "?sk \<noteq> []" "\<forall>c \<in> set ?sk. always_safe c" by simp_all
  then have "CHR ''='' \<notin> set ?sk" using always_safe_plain by blast
  from partition_char_append_sep [OF this, of "quote v"]
  have part: "partition_char CHR ''='' (upi_field kv) = (?sk, True, quote v)"
    by (simp add: upi_field_def kv)
  have ne: "upi_field kv \<noteq> []" using sk by (simp add: upi_field_def kv)
  from Cons have rest: "parse_qsl_fields (map upi_field r) =
      map (\<lambda>(key, value). (dict_get reverse_mapping key, value)) r" by simp
  from part ne quote_not_Nil [OF v(1)] unquote_plus_plain [OF sk(2)] unquote_plus_quote [OF v(2)] rest
  show ?case by (simp add: kv)
qed

lemma upi_field_chars:
  assumes "key \<in> set recognized_fields" and "x \<in> set (upi_field (key, value))"
  shows "x \<noteq> CHR ''&'' \<and> url_plain x"
proof -
  have q: "quoted_char c \<Longrightarrow> c \<noteq> CHR ''&'' \<and> url_plain c" for c
    using always_safe_plain [of c]
    by (auto simp: quoted_char_def url_plain_def unsafe_url_bytes_to_remove_def)
  from assms(2) consider "x \<in> set (dict_get reverse_mapping key)" | "x = CHR ''=''"
    | "x \<in> set (quote value)"
    by (auto simp: upi_field_def)
  then show ?thesis
  proof cases
    case 1
    with recognized_short_key [OF assms(1)] have "always_safe x" by blast
    then show ?thesis using q [of x] by (simp add: quoted_char_def)
  next
    case 2
    then show ?thesis by (simp add: url_plain_def unsafe_url_bytes_to_remove_def)
  next
    case 3
    from quote_quoted_char [OF this] show ?thesis by (rule q)
  qed
qed


lemma dict_set_absent: "k \<notin> set (map fst d) \<Longrightarrow> dict_set d k v = d @ [(k, v)]"
  by (induction d) auto

lemma map_of_absent: "k \<notin> set (map fst d) \<Longrightarrow> map_of d k = None"
  by (simp add: map_of_eq_None_iff)

lemma parse_qs_pairs_distinct:
  "distinct (map fst acc @ map fst pairs) \<Longrightarrow>
   parse_qs_pairs acc pairs = acc @ map (\<lambda>(n, v). (n, [v])) pairs"
proof (induction pairs arbitrary: acc)
  case Nil
  show ?case by simp
next
  case (Cons p pairs)
  obtain n v where p: "p = (n, v)" by (cases p)
  from Cons.prems p have absent: "n \<notin> set (map fst acc)" by auto
  from Cons.prems p have "distinct (map fst (acc @ [(n, [v])]) @ map fst pairs)" by auto
  from Cons.IH [OF this] map_of_absent [OF absent] dict_set_absent [OF absent] p
  show ?case by simp
qed

lemma extract_params_distinct:
  "distinct (map fst acc @ map (\<lambda>(n, v). dict_get param_mapping n) pairs) \<Longrightarrow>
   extract_params acc (map (\<lambda>(n, v). (n, [v])) pairs) =
   (acc @ map (\<lambda>(n, v). (dict_get param_mapping n, v)) pairs, None)"
proof (induction pairs arbitrary: acc)
  case Nil
  show ?case by simp
next
  case (Cons p pairs)
  obtain n v where p: "p = (n, v)" by (cases p)
  from Cons.prems p have absent: "dict_get param_mapping n \<notin> set (map fst acc)" by auto
  from Cons.prems p
  have "distinct (map fst (acc @ [(dict_get param_mapping n, v)]) @
                  map (\<lambda>(n, v). dict_get param_mapping n) pairs)" by auto
  from Cons.IH [OF this] dict_set_absent [OF absent] p
  show ?case by simp
qed

lemma create_upi_string_fields:
  "create_upi_string r = ''upi://pay?'' @ join ''&'' (map upi_field r)"
proof -
  have "(\<lambda>(key, value). dict_get reverse_mapping key @ ''='' @ quote value) = upi_field"
    by (auto simp: upi_field_def fun_eq_iff)
  then show ?thesis by (simp add: create_upi_string_def)
qed

lemma map_fst_rename: "map fst (map (\<lambda>(k, v). (f k, v)) r) = map f (map fst r)"
  by (induction r) auto

lemma map_rename_inverse:
  "\<forall>(k, v) \<in> set r. g (f k) = k \<Longrightarrow>
   map (\<lambda>(n, v). (g n, v)) (map (\<lambda>(k, v). (f k, v)) r) = r"
  by (induction r) auto

lemma map_rename_keys:
  "\<forall>(k, v) \<in> set r. g (f k) = k \<Longrightarrow>
   map (\<lambda>(n, v). g n) (map (\<lambda>(k, v). (f k, v)) r) = map fst r"
  by (induction r) auto

text \<open>
  Claim C1. For every record whose keys are distinct (a dictionary) and among the nine
  field names, and whose values are non-empty strings, parsing the serialized record
  gives the record back, with its fields in the same order. The values may be any
  strings: ASCII values without reserved characters are the special case of the claim
  (\<open>ascii_valid_utf8\<close>), reserved characters are escaped by \<open>quote\<close>.
\<close>

theorem parse_create_round_trip:
  assumes "distinct (map fst r)"
    and "\<forall>(key, value) \<in> set r.
           key \<in> set recognized_fields \<and> value \<noteq> [] \<and> valid_utf8 value"
  shows "returned (parse_upi_string env self (create_upi_string r)) = r"
proof -
  let ?q = "join ''&'' (map upi_field r)"
  let ?short = "\<lambda>(key, value). (dict_get reverse_mapping key, value)"
  have keys: "k \<in> set recognized_fields" if "(k, v) \<in> set r" for k v
    using assms(2) that by auto
  have plain: "\<forall>c \<in> set ?q. url_plain c"
  proof
    fix c
    assume "c \<in> set ?q"
    from set_join [OF this] show "url_plain c"
    proof
      assume "c \<in> set ''&''"
      then show ?thesis by (simp add: url_plain_def unsafe_url_bytes_to_remove_def)
    next
      assume "\<exists>f \<in> set (map upi_field r). c \<in> set f"
      then obtain k v where "(k, v) \<in> set r" "c \<in> set (upi_field (k, v))" by auto
      with upi_field_chars [OF keys] show ?thesis by blast
    qed
  qed
  have start: "startswith (create_upi_string r) ''upi://''"
    by (simp add: create_upi_string_fields startswith_def)
  have parsed: "urlparse env (create_upi_string r) =
      Inr \<lparr>scheme = ''upi'', netloc = ''pay'', path = [], query = ?q, fragment = []\<rparr>"
    unfolding urlparse_def create_upi_string_fields by (rule urlsplit_upi_pay [OF plain])
  have pairs: "parse_qsl ?q = map ?short r"
  proof (cases "r = []")
    case True
    then show ?thesis by (simp add: parse_qsl_def)
  next
    case False
    have ne: "\<forall>f \<in> set (map upi_field r). f \<noteq> []"
      using recognized_short_key keys by (fastforce simp: upi_field_def)
    have amp: "\<forall>f \<in> set (map upi_field r). CHR ''&'' \<notin> set f"
      using upi_field_chars keys by fastforce
    from False have m: "map upi_field r \<noteq> []" by simp
    from join_Nil_iff [OF ne, of "''&''"] False have "?q \<noteq> []" by simp
    with split_char_join [OF m amp] parse_qsl_fields_upi_fields [OF assms(2)]
    show ?thesis by (simp add: parse_qsl_def)
  qed
  have inv: "\<forall>(k, v) \<in> set r. dict_get param_mapping (dict_get reverse_mapping k) = k"
    using recognized_short_key keys by blast
  have inj: "inj_on (dict_get reverse_mapping) (set (map fst r))"
  proof (rule inj_onI)
    fix a b
    assume a: "a \<in> set (map fst r)" and b: "b \<in> set (map fst r)"
      and eq: "dict_get reverse_mapping a = dict_get reverse_mapping b"
    from a inv have ia: "dict_get param_mapping (dict_get reverse_mapping a) = a" by auto
    from b inv have ib: "dict_get param_mapping (dict_get reverse_mapping b) = b" by auto
    from ia have "a = dict_get param_mapping (dict_get reverse_mapping a)" by (rule sym)
    also have "\<dots> = dict_get param_mapping (dict_get reverse_mapping b)" by (simp only: eq)
    also have "\<dots> = b" by (rule ib)
    finally show "a = b" .
  qed
  have names: "map fst (map ?short r) = map (dict_get reverse_mapping) (map fst r)"
    by (rule map_fst_rename)
  have d1: "distinct (map fst (map ?short r))"
    unfolding names by (subst distinct_map) (use assms(1) inj in blast)
  have fields: "map (\<lambda>(n, v). (dict_get param_mapping n, v)) (map ?short r) = r"
    using inv by (rule map_rename_inverse [of r "dict_get param_mapping" "dict_get reverse_mapping"])
  have k2: "map (\<lambda>(n, v). dict_get param_mapping n) (map ?short r) = map fst r"
    using inv by (rule map_rename_keys [of r "dict_get param_mapping" "dict_get reverse_mapping"])
  have d2: "distinct (map fst [] @ map (\<lambda>(n, v). dict_get param_mapping n) (map ?short r))"
    unfolding k2 using assms(1) by simp
  have d1': "distinct (map fst [] @ map fst (map ?short r))"
    unfolding names using d1 [unfolded names] by simp
  have "extract_params [] (parse_qs ?q) = (r, None)"
    unfolding parse_qs_def pairs parse_qs_pairs_distinct [OF d1'] append_Nil
      extract_params_distinct [OF d2] fields ..
  with parse_upi_string_accepted_returned [OF start parsed, of self] show ?thesis by simp
qed


theorem parse_create_round_trip_witness:
  "distinct (map fst [(''payee_address'', ''shop@upi''), (''amount'', ''100'')]) \<and>
   ''payee_address'' \<in> set recognized_fields \<and> ''amount'' \<in> set recognized_fields \<and>
   valid_utf8 ''shop@upi'' \<and> valid_utf8 ''100'' \<and>
   create_upi_string [(''payee_address'', ''shop@upi''), (''amount'', ''100'')] =
     ''upi://pay?pa=shop%40upi&am=100'' \<and>
   returned (parse_upi_string plain_env init ''upi://pay?pa=shop%40upi&am=100'') =
     [(''payee_address'', ''shop@upi''), (''amount'', ''100'')]"
proof -
  let ?r = "[(''payee_address'', ''shop@upi''), (''amount'', ''100'')]"
  have d: "distinct (map fst ?r)" by simp
  have h: "\<forall>(key, value) \<in> set ?r.
      key \<in> set recognized_fields \<and> value \<noteq> [] \<and> valid_utf8 value"
    by (simp add: recognized_fields_def ord_def)
  have c: "create_upi_string ?r = ''upi://pay?pa=shop%40upi&am=100''"
    by code_simp
  have m: "''payee_address'' \<in> set recognized_fields" "''amount'' \<in> set recognized_fields"
    "valid_utf8 ''shop@upi''" "valid_utf8 ''100''"
    by (simp_all add: recognized_fields_def ord_def)
  from parse_create_round_trip [OF d h, of plain_env init] d m c show ?thesis
    by (simp only: simp_thms)
qed

end
